theory Spec2Isabelle
  imports Complex_Main
begin

section \<open>Privacy budget accounting (pipeline\_dp/budget\_accounting.py)\<close>

text \<open>
  A shallow embedding of the budget accountants. Conventions:
  \<^item> Python floats are modelled as \<^typ>\<open>real\<close> (no infinities, no NaN), with exact
    arithmetic everywhere but in the search for the minimum noise, whose two loops
    round the result of every arithmetic operation with \<open>round_float\<close>, a parameter;
    the integer \<open>count\<close> and \<open>n_aggregations\<close> are \<^typ>\<open>int\<close>.
  \<^item> A field that Python initialises with \<open>None\<close> is an \<open>option\<close>.
  \<^item> Python's private attribute \<open>_x\<close> of \<open>MechanismSpec\<close> is the record field \<open>u_x\<close>;
    the property of the same name keeps the name \<open>x\<close>.
  \<^item> Every method returns its outcome together with the accountant as the call leaves
    it: \<open>(Inl e, a')\<close> when the call raises \<open>e\<close> (what it had already written stays
    written), \<open>(Inr r, a')\<close> when it returns \<open>r\<close>.
  \<^item> Objects that Python shares by reference live in lists owned by the accountant and
    are named by their position: \<open>mechanisms\<close> is the registry \<open>_mechanisms\<close> itself
    (append only), \<open>scope_heap\<close> holds every \<open>BudgetAccountantScope\<close> made by
    \<open>scope()\<close>. A scope's \<open>mechanisms\<close> list and the stack \<open>_scopes_stack\<close> hold
    positions.
\<close>

subsection \<open>Errors\<close>

datatype error =
    NoiseNotCalculated          \<comment> \<open>AssertionError: Noise standard deviation is not calculated yet.\<close>
  | BudgetNotCalculated         \<comment> \<open>AssertionError: Privacy budget is not calculated yet.\<close>
  | EpsIsNone                   \<comment> \<open>AssertionError: eps must not be None.\<close>
  | BothAggregationParams       \<comment> \<open>ValueError: n\_aggregations and aggregation\_weights both set\<close>
  | NAggregationsNotPositive    \<comment> \<open>ValueError: n\_aggregations has to be positive\<close>
  | NestedAggregationScopes     \<comment> \<open>ValueError: Aggregation scopes can not be nested.\<close>
  | ExceededAggregations        \<comment> \<open>ValueError: Exceeded the number of allowed aggregations\<close>
  | AggregationWeightNotOne     \<comment> \<open>ValueError: all aggregation weights have to be 1\<close>
  | AggregationWeightMismatch   \<comment> \<open>ValueError: weight differs from aggregation\_weights\<close>
  | ShouldNotHappen             \<comment> \<open>assert False, "It should not happen."\<close>
  | ComputeBudgetsTwice         \<comment> \<open>Exception: compute\_budgets can not be called twice.\<close>
  | WrongNumberOfAggregations   \<comment> \<open>ValueError of \_check\_number\_aggregation\_scopes\<close>
  | RequestAfterCompute         \<comment> \<open>Exception: request\_budget() is called after compute\_budgets().\<close>
  | NotImplementedError         \<comment> \<open>Count and noise standard deviation have not been implemented yet.\<close>
  | GaussianNeedsDelta          \<comment> \<open>ValueError (Naive), AssertionError (PLD): Gaussian needs delta > 0\<close>
  | ComputeInsideScope          \<comment> \<open>Exception: Cannot call compute\_budgets from within a budget scope.\<close>
  | EpsilonNotPositive          \<comment> \<open>ValueError: Epsilon must be positive\<close>
  | DeltaNegative               \<comment> \<open>ValueError: Delta must be non-negative\<close>
  | ZeroDivisionError
  | IndexError
  | AttributeError

definition py_div :: "real \<Rightarrow> real \<Rightarrow> error + real" where
  "py_div x y = (if y = 0 then Inl ZeroDivisionError else Inr (x / y))"

subsection \<open>MechanismSpec and MechanismSpecInternal\<close>

datatype MechanismType = LAPLACE | GAUSSIAN | GENERIC

record MechanismSpec =
  mechanism_type :: MechanismType
  u_noise_standard_deviation :: "real option"
  u_eps :: "real option"
  u_delta :: "real option"
  u_count :: int

definition noise_standard_deviation :: "MechanismSpec \<Rightarrow> error + real" where
  "noise_standard_deviation self =
     (case u_noise_standard_deviation self of
        None \<Rightarrow> Inl NoiseNotCalculated
      | Some v \<Rightarrow> Inr v)"

definition eps :: "MechanismSpec \<Rightarrow> error + real" where
  "eps self = (case u_eps self of None \<Rightarrow> Inl BudgetNotCalculated | Some v \<Rightarrow> Inr v)"

definition delta :: "MechanismSpec \<Rightarrow> error + real" where
  "delta self = (case u_delta self of None \<Rightarrow> Inl BudgetNotCalculated | Some v \<Rightarrow> Inr v)"

definition count :: "MechanismSpec \<Rightarrow> int" where
  "count self = u_count self"

definition set_eps_delta ::
  "MechanismSpec \<Rightarrow> real option \<Rightarrow> real option \<Rightarrow> error + MechanismSpec" where
  "set_eps_delta self e d =
     (case e of
        None \<Rightarrow> Inl EpsIsNone
      | Some v \<Rightarrow> Inr (self\<lparr>u_eps := Some v, u_delta := d\<rparr>))"

definition use_delta :: "MechanismSpec \<Rightarrow> bool" where
  "use_delta self = (mechanism_type self \<noteq> LAPLACE)"

record MechanismSpecInternal =
  sensitivity :: real
  weight :: real
  mechanism_spec :: MechanismSpec

subsection \<open>The accountant and its scopes\<close>

record BudgetAccountantScope =
  scope_weight :: real                      \<comment> \<open>\<open>weight\<close>\<close>
  index_aggregation_scope :: "nat option"   \<comment> \<open>\<open>_index_aggregation_scope\<close>\<close>
  scope_epsilon :: "real option"            \<comment> \<open>\<open>_epsilon\<close>\<close>
  scope_delta :: "real option"              \<comment> \<open>\<open>_delta\<close>\<close>
  scope_mechanisms :: "nat list"            \<comment> \<open>\<open>mechanisms\<close>: positions in the registry\<close>

datatype accountant_class = NaiveBudgetAccountant | PLDBudgetAccountant

record BudgetAccountant =
  accountant_class :: accountant_class
  scopes_stack :: "nat list"                \<comment> \<open>positions in \<open>scope_heap\<close>, top of the stack last\<close>
  mechanisms :: "MechanismSpecInternal list"
  finalized :: bool
  n_aggregations :: "int option"
  aggregation_weights :: "real list option"
  next_aggregation_index :: nat
  inside_aggregation_scope :: bool
  total_epsilon :: real
  total_delta :: real
  minimum_noise_std :: "real option"        \<comment> \<open>PLDBudgetAccountant only\<close>
  pld_discretization :: real                \<comment> \<open>PLDBudgetAccountant only\<close>
  scope_heap :: "BudgetAccountantScope list"

definition validate_epsilon_delta :: "real \<Rightarrow> real \<Rightarrow> error + unit" where
  "validate_epsilon_delta epsilon dlt =
     (if epsilon \<le> 0 then Inl EpsilonNotPositive
      else if dlt < 0 then Inl DeltaNegative
      else Inr ())"

text \<open>\<open>BudgetAccountant.__init__\<close>: the two checks of the base class.\<close>

definition BudgetAccountant_init :: "int option \<Rightarrow> real list option \<Rightarrow> error + unit" where
  "BudgetAccountant_init n ws =
     (if n \<noteq> None \<and> ws \<noteq> None then Inl BothAggregationParams
      else case n of
             Some k \<Rightarrow> if k \<le> 0 then Inl NAggregationsNotPositive else Inr ()
           | None \<Rightarrow> Inr ())"

definition new_accountant ::
  "accountant_class \<Rightarrow> real \<Rightarrow> real \<Rightarrow> real \<Rightarrow> int option \<Rightarrow> real list option \<Rightarrow> BudgetAccountant"
where
  "new_accountant cls epsilon dlt discretization n ws =
     \<lparr>accountant_class = cls, scopes_stack = [], mechanisms = [], finalized = False,
      n_aggregations = n, aggregation_weights = ws, next_aggregation_index = 0,
      inside_aggregation_scope = False, total_epsilon = epsilon, total_delta = dlt,
      minimum_noise_std = None, pld_discretization = discretization, scope_heap = []\<rparr>"

definition NaiveBudgetAccountant_init ::
  "real \<Rightarrow> real \<Rightarrow> int option \<Rightarrow> real list option \<Rightarrow> error + BudgetAccountant" where
  "NaiveBudgetAccountant_init epsilon dlt n ws =
     (case BudgetAccountant_init n ws of
        Inl e \<Rightarrow> Inl e
      | Inr _ \<Rightarrow>
          (case validate_epsilon_delta epsilon dlt of
             Inl e \<Rightarrow> Inl e
           | Inr _ \<Rightarrow> Inr (new_accountant NaiveBudgetAccountant epsilon dlt 0 n ws)))"

definition PLDBudgetAccountant_init ::
  "real \<Rightarrow> real \<Rightarrow> real \<Rightarrow> int option \<Rightarrow> real list option \<Rightarrow> error + BudgetAccountant" where
  "PLDBudgetAccountant_init epsilon dlt discretization n ws =
     (case BudgetAccountant_init n ws of
        Inl e \<Rightarrow> Inl e
      | Inr _ \<Rightarrow>
          (case validate_epsilon_delta epsilon dlt of
             Inl e \<Rightarrow> Inl e
           | Inr _ \<Rightarrow> Inr (new_accountant PLDBudgetAccountant epsilon dlt discretization n ws)))"

text \<open>Python truthiness of \<open>self._n_aggregations\<close> and \<open>self._aggregation_weights\<close>.\<close>

definition truthy_int :: "int option \<Rightarrow> bool" where
  "truthy_int n = (case n of None \<Rightarrow> False | Some k \<Rightarrow> k \<noteq> 0)"

definition truthy_list :: "'a list option \<Rightarrow> bool" where
  "truthy_list ws = (case ws of None \<Rightarrow> False | Some xs \<Rightarrow> xs \<noteq> [])"

definition is_aggregation_scope :: "BudgetAccountantScope \<Rightarrow> bool" where
  "is_aggregation_scope s = (index_aggregation_scope s \<noteq> None)"

definition compute_budget_for_aggregation_scope ::
  "BudgetAccountant \<Rightarrow> BudgetAccountantScope \<Rightarrow> error + BudgetAccountantScope" where
  "compute_budget_for_aggregation_scope a s =
     (let set_budget = (\<lambda>budget_ratio.
            s\<lparr>scope_epsilon := Some (total_epsilon a * budget_ratio),
              scope_delta := Some (total_delta a * budget_ratio)\<rparr>)
      in case n_aggregations a of
           Some n \<Rightarrow>
             (case py_div 1 (real_of_int n) of
                Inl e \<Rightarrow> Inl e
              | Inr budget_ratio \<Rightarrow> Inr (set_budget budget_ratio))
         | None \<Rightarrow>
             (case aggregation_weights a of
                Some weights \<Rightarrow>
                  (case index_aggregation_scope s of
                     None \<Rightarrow> Inl IndexError
                   | Some i \<Rightarrow>
                       if i < length weights
                       then (case py_div (weights ! i) (sum_list weights) of
                               Inl e \<Rightarrow> Inl e
                             | Inr budget_ratio \<Rightarrow> Inr (set_budget budget_ratio))
                       else Inl IndexError)
              | None \<Rightarrow> Inr s))"

text \<open>\<open>BudgetAccountantScope.__init__\<close>\<close>

definition BudgetAccountantScope_init ::
  "BudgetAccountant \<Rightarrow> real \<Rightarrow> nat option \<Rightarrow> error + BudgetAccountantScope" where
  "BudgetAccountantScope_init a w idx =
     (let s = \<lparr>scope_weight = w, index_aggregation_scope = idx, scope_epsilon = None,
               scope_delta = None, scope_mechanisms = []\<rparr>
      in if idx \<noteq> None then compute_budget_for_aggregation_scope a s else Inr s)"

text \<open>The last line of \<open>scope()\<close>: build the object; its position in the heap is the
  reference that the caller gets.\<close>

definition new_scope ::
  "BudgetAccountant \<Rightarrow> real \<Rightarrow> nat option \<Rightarrow> (error + nat) \<times> BudgetAccountant" where
  "new_scope a w idx =
     (case BudgetAccountantScope_init a w idx of
        Inl e \<Rightarrow> (Inl e, a)
      | Inr s \<Rightarrow> (Inr (length (scope_heap a)), a\<lparr>scope_heap := scope_heap a @ [s]\<rparr>))"

definition get_next_aggregation_index :: "BudgetAccountant \<Rightarrow> nat \<times> BudgetAccountant" where
  "get_next_aggregation_index a =
     (next_aggregation_index a, a\<lparr>next_aggregation_index := next_aggregation_index a + 1\<rparr>)"

definition scope :: "BudgetAccountant \<Rightarrow> real \<Rightarrow> bool \<Rightarrow> (error + nat) \<times> BudgetAccountant" where
  "scope a w aggregation_scope =
     (if aggregation_scope \<and> (truthy_int (n_aggregations a) \<or> truthy_list (aggregation_weights a))
      then
        if inside_aggregation_scope a then (Inl NestedAggregationScopes, a)
        else
          (case get_next_aggregation_index a of (aggregation_index, a1) \<Rightarrow>
             if truthy_int (n_aggregations a1) then
               (case n_aggregations a1 of
                  None \<Rightarrow> (Inl ShouldNotHappen, a1)
                | Some n \<Rightarrow>
                    if int aggregation_index \<ge> n then (Inl ExceededAggregations, a1)
                    else if w \<noteq> 1 then (Inl AggregationWeightNotOne, a1)
                    else new_scope a1 w (Some aggregation_index))
             else
               (case aggregation_weights a1 of
                  Some weights \<Rightarrow>
                    if aggregation_index \<ge> length weights then (Inl ExceededAggregations, a1)
                    else if w \<noteq> weights ! aggregation_index
                    then (Inl AggregationWeightMismatch, a1)
                    else new_scope a1 w (Some aggregation_index)
                | None \<Rightarrow> (Inl ShouldNotHappen, a1)))
      else new_scope a w None)"

text \<open>\<open>_register_mechanism\<close>: append to the registry, then to the list of every scope on
  the stack (once per occurrence on the stack).\<close>

definition append_to_scope :: "nat \<Rightarrow> nat \<Rightarrow> BudgetAccountantScope list \<Rightarrow> BudgetAccountantScope list"
where
  "append_to_scope m sid heap =
     heap[sid := (heap ! sid)\<lparr>scope_mechanisms := scope_mechanisms (heap ! sid) @ [m]\<rparr>]"

definition register_mechanism :: "BudgetAccountant \<Rightarrow> MechanismSpecInternal \<Rightarrow> nat \<times> BudgetAccountant"
where
  "register_mechanism a mechanism =
     (let m = length (mechanisms a)
      in (m, a\<lparr>mechanisms := mechanisms a @ [mechanism],
               scope_heap := fold (append_to_scope m) (scopes_stack a) (scope_heap a)\<rparr>))"

definition enter_scope :: "BudgetAccountant \<Rightarrow> nat \<Rightarrow> BudgetAccountant" where
  "enter_scope a sid =
     (let a1 = (if is_aggregation_scope (scope_heap a ! sid)
                then a\<lparr>inside_aggregation_scope := True\<rparr> else a)
      in a1\<lparr>scopes_stack := scopes_stack a1 @ [sid]\<rparr>)"

definition exit_scope :: "BudgetAccountant \<Rightarrow> (error + unit) \<times> BudgetAccountant" where
  "exit_scope a =
     (if scopes_stack a = [] then (Inl IndexError, a)
      else
        let sid = last (scopes_stack a);
            a1 = a\<lparr>scopes_stack := butlast (scopes_stack a)\<rparr>
        in if is_aggregation_scope (scope_heap a1 ! sid)
           then (Inr (), a1\<lparr>inside_aggregation_scope := False\<rparr>)
           else (Inr (), a1))"

definition check_number_aggregation_scopes :: "BudgetAccountant \<Rightarrow> error + unit" where
  "check_number_aggregation_scopes a =
     (let aggregation_scopes = next_aggregation_index a
      in if truthy_int (n_aggregations a) \<and> n_aggregations a \<noteq> Some (int aggregation_scopes)
         then Inl WrongNumberOfAggregations
         else case aggregation_weights a of
                Some weights \<Rightarrow>
                  if aggregation_scopes \<noteq> length weights then Inl WrongNumberOfAggregations
                  else Inr ()
              | None \<Rightarrow> Inr ())"

definition finalize :: "BudgetAccountant \<Rightarrow> (error + unit) \<times> BudgetAccountant" where
  "finalize a =
     (case check_number_aggregation_scopes a of
        Inl e \<Rightarrow> (Inl e, a)
      | Inr _ \<Rightarrow>
          if finalized a then (Inl ComputeBudgetsTwice, a)
          else (Inr (), a\<lparr>finalized := True\<rparr>))"

subsection \<open>Scope exit: weight normalisation\<close>

definition scale_weight :: "real \<Rightarrow> nat \<Rightarrow> MechanismSpecInternal list \<Rightarrow> MechanismSpecInternal list"
where
  "scale_weight normalisation_factor i ms =
     ms[i := (ms ! i)\<lparr>weight := weight (ms ! i) * normalisation_factor\<rparr>]"

text \<open>\<open>_normalise_mechanism_weights\<close> of the scope \<open>s\<close>, on the registry \<open>ms\<close>.\<close>

definition total_weight :: "BudgetAccountantScope \<Rightarrow> MechanismSpecInternal list \<Rightarrow> real" where
  "total_weight s ms = sum_list (map (\<lambda>i. weight (ms ! i)) (scope_mechanisms s))"

definition normalise_mechanism_weights ::
  "BudgetAccountantScope \<Rightarrow> MechanismSpecInternal list \<Rightarrow> error + MechanismSpecInternal list"
where
  "normalise_mechanism_weights s ms =
     (if scope_mechanisms s = [] then Inr ms
      else
        case py_div (scope_weight s) (total_weight s ms) of
          Inl e \<Rightarrow> Inl e
        | Inr normalisation_factor \<Rightarrow>
            Inr (fold (scale_weight normalisation_factor) (scope_mechanisms s) ms))"

text \<open>\<open>BudgetAccountantScope.__enter__\<close> and \<open>__exit__\<close> of the scope at position \<open>sid\<close>.\<close>

definition BudgetAccountantScope_enter :: "BudgetAccountant \<Rightarrow> nat \<Rightarrow> (error + nat) \<times> BudgetAccountant"
where
  "BudgetAccountantScope_enter a sid = (Inr sid, enter_scope a sid)"

definition BudgetAccountantScope_exit :: "BudgetAccountant \<Rightarrow> nat \<Rightarrow> (error + unit) \<times> BudgetAccountant"
where
  "BudgetAccountantScope_exit a sid =
     (case exit_scope a of
        (Inl e, a1) \<Rightarrow> (Inl e, a1)
      | (Inr _, a1) \<Rightarrow>
          (case normalise_mechanism_weights (scope_heap a1 ! sid) (mechanisms a1) of
             Inl e \<Rightarrow> (Inl e, a1)
           | Inr ms \<Rightarrow> (Inr (), a1\<lparr>mechanisms := ms\<rparr>)))"

subsection \<open>Loops over objects that may raise\<close>

text \<open>\<open>for x in xs: body(x)\<close> where the body mutates \<open>x\<close> and may raise: the body returns
  the object as it leaves it and the error, if any; the loop stops at the first error and
  keeps everything written so far.\<close>

fun for_each :: "('a \<Rightarrow> error option \<times> 'a) \<Rightarrow> 'a list \<Rightarrow> error option \<times> 'a list" where
  "for_each body [] = (None, [])"
| "for_each body (x # xs) =
     (case body x of
        (Some e, y) \<Rightarrow> (Some e, y # xs)
      | (None, y) \<Rightarrow> (case for_each body xs of (r, ys) \<Rightarrow> (r, y # ys)))"

subsection \<open>NaiveBudgetAccountant\<close>

definition new_mechanism :: "MechanismType \<Rightarrow> real \<Rightarrow> real \<Rightarrow> int \<Rightarrow> MechanismSpecInternal" where
  "new_mechanism t sens w c =
     \<lparr>sensitivity = sens, weight = w,
      mechanism_spec = \<lparr>mechanism_type = t, u_noise_standard_deviation = None,
                        u_eps = None, u_delta = None, u_count = c\<rparr>\<rparr>"

text \<open>The \<open>MechanismSpec\<close> that \<open>request_budget\<close> returns is named by its position in the
  registry.\<close>

definition Naive_request_budget ::
  "BudgetAccountant \<Rightarrow> MechanismType \<Rightarrow> real \<Rightarrow> real \<Rightarrow> int \<Rightarrow> real option
     \<Rightarrow> (error + nat) \<times> BudgetAccountant" where
  "Naive_request_budget a t sens w c noise_std =
     (if finalized a then (Inl RequestAfterCompute, a)
      else if noise_std \<noteq> None then (Inl NotImplementedError, a)
      else if t = GAUSSIAN \<and> total_delta a = 0 then (Inl GaussianNeedsDelta, a)
      else case register_mechanism a (new_mechanism t sens w c) of (m, a1) \<Rightarrow> (Inr m, a1))"

text \<open>The first loop of \<open>compute_budgets\<close>: \<open>(total_weight_eps, total_weight_delta)\<close>.\<close>

definition add_weights :: "MechanismSpecInternal \<Rightarrow> real \<times> real \<Rightarrow> real \<times> real" where
  "add_weights mechanism totals =
     (case totals of (total_weight_eps, total_weight_delta) \<Rightarrow>
        (total_weight_eps + weight mechanism * real_of_int (count (mechanism_spec mechanism)),
         if use_delta (mechanism_spec mechanism)
         then total_weight_delta + weight mechanism * real_of_int (count (mechanism_spec mechanism))
         else total_weight_delta))"

definition total_weights :: "MechanismSpecInternal list \<Rightarrow> real \<times> real" where
  "total_weights ms = fold add_weights ms (0, 0)"

text \<open>The body of the second loop.\<close>

definition naive_eps :: "real \<Rightarrow> real \<Rightarrow> MechanismSpecInternal \<Rightarrow> real" where
  "naive_eps tot_eps total_weight_eps mechanism =
     (if total_weight_eps \<noteq> 0 then tot_eps * weight mechanism / total_weight_eps else 0)"

definition naive_delta :: "real \<Rightarrow> real \<Rightarrow> MechanismSpecInternal \<Rightarrow> real" where
  "naive_delta tot_delta total_weight_delta mechanism =
     (if use_delta (mechanism_spec mechanism)
      then (if total_weight_delta \<noteq> 0
            then tot_delta * weight mechanism / total_weight_delta else 0)
      else 0)"

definition naive_assign ::
  "real \<Rightarrow> real \<Rightarrow> real \<times> real \<Rightarrow> MechanismSpecInternal \<Rightarrow> error option \<times> MechanismSpecInternal"
where
  "naive_assign tot_eps tot_delta totals mechanism =
     (case set_eps_delta (mechanism_spec mechanism)
             (Some (naive_eps tot_eps (fst totals) mechanism))
             (Some (naive_delta tot_delta (snd totals) mechanism)) of
        Inl e \<Rightarrow> (Some e, mechanism)
      | Inr sp \<Rightarrow> (None, mechanism\<lparr>mechanism_spec := sp\<rparr>))"

definition Naive_compute_budgets :: "BudgetAccountant \<Rightarrow> (error + unit) \<times> BudgetAccountant" where
  "Naive_compute_budgets a =
     (case finalize a of
        (Inl e, a1) \<Rightarrow> (Inl e, a1)
      | (Inr _, a1) \<Rightarrow>
          if mechanisms a1 = [] then (Inr (), a1)
          else if scopes_stack a1 \<noteq> [] then (Inl ComputeInsideScope, a1)
          else
            (case for_each (naive_assign (total_epsilon a1) (total_delta a1)
                              (total_weights (mechanisms a1))) (mechanisms a1) of
               (Some e, ms) \<Rightarrow> (Inl e, a1\<lparr>mechanisms := ms\<rparr>)
             | (None, ms) \<Rightarrow> (Inr (), a1\<lparr>mechanisms := ms\<rparr>)))"

subsection \<open>PLDBudgetAccountant\<close>

text \<open>What the accountant takes from outside the repository is a parameter. The
  dp\_accounting library: \<open>'p\<close> is \<open>PrivacyLossDistribution\<close>, and the second argument of
  the constructors is \<open>value_discretization_interval\<close>. The float arithmetic of the
  machine: \<open>round_float\<close> maps the exact result of an arithmetic operation to the float
  that the operation returns (the identity is exact arithmetic); the two loops of the
  search for the minimum noise, whose ending depends on it, apply it after every
  operation.\<close>

record 'p pldlib =
  from_laplace_mechanism :: "real \<Rightarrow> real \<Rightarrow> 'p"
  from_gaussian_mechanism :: "real \<Rightarrow> real \<Rightarrow> 'p"
  from_privacy_parameters :: "real \<Rightarrow> real \<Rightarrow> real \<Rightarrow> 'p"
  compose :: "'p \<Rightarrow> 'p \<Rightarrow> 'p"
  get_epsilon_for_delta :: "'p \<Rightarrow> real \<Rightarrow> real"
  round_float :: "real \<Rightarrow> real"

definition PLD_request_budget ::
  "BudgetAccountant \<Rightarrow> MechanismType \<Rightarrow> real \<Rightarrow> real \<Rightarrow> int \<Rightarrow> real option
     \<Rightarrow> (error + nat) \<times> BudgetAccountant" where
  "PLD_request_budget a t sens w c noise_std =
     (if finalized a then (Inl RequestAfterCompute, a)
      else if c \<noteq> 1 \<or> noise_std \<noteq> None then (Inl NotImplementedError, a)
      else if t = GAUSSIAN \<and> total_delta a = 0 then (Inl GaussianNeedsDelta, a)
      else case register_mechanism a (new_mechanism t sens w 1) of (m, a1) \<Rightarrow> (Inr m, a1))"

text \<open>One round of the loop of \<open>_compose_distributions\<close>: the distribution of one mechanism.\<close>

definition mechanism_pld ::
  "'p pldlib \<Rightarrow> BudgetAccountant \<Rightarrow> real \<Rightarrow> MechanismSpecInternal \<Rightarrow> error + 'p" where
  "mechanism_pld lib a noise_std m =
     (case mechanism_type (mechanism_spec m) of
        LAPLACE \<Rightarrow>
          (case py_div (sensitivity m * noise_std / sqrt 2) (weight m) of
             Inl e \<Rightarrow> Inl e
           | Inr b \<Rightarrow> Inr (from_laplace_mechanism lib b (pld_discretization a)))
      | GAUSSIAN \<Rightarrow>
          (case py_div (sensitivity m * noise_std) (weight m) of
             Inl e \<Rightarrow> Inl e
           | Inr sd \<Rightarrow> Inr (from_gaussian_mechanism lib sd (pld_discretization a)))
      | GENERIC \<Rightarrow>
          (case py_div (sqrt 2) noise_std of
             Inl e \<Rightarrow> Inl e
           | Inr epsilon_0_interim \<Rightarrow>
               (case py_div epsilon_0_interim (total_epsilon a) of
                  Inl e \<Rightarrow> Inl e
                | Inr q \<Rightarrow>
                    Inr (from_privacy_parameters lib epsilon_0_interim (q * total_delta a)
                           (pld_discretization a)))))"

fun compose_loop ::
  "'p pldlib \<Rightarrow> BudgetAccountant \<Rightarrow> real \<Rightarrow> MechanismSpecInternal list \<Rightarrow> 'p option
     \<Rightarrow> error + 'p option" where
  "compose_loop lib a noise_std [] composed = Inr composed"
| "compose_loop lib a noise_std (m # ms) composed =
     (case mechanism_pld lib a noise_std m of
        Inl e \<Rightarrow> Inl e
      | Inr pld \<Rightarrow>
          compose_loop lib a noise_std ms
            (Some (case composed of None \<Rightarrow> pld | Some c \<Rightarrow> compose lib c pld)))"

definition compose_distributions ::
  "'p pldlib \<Rightarrow> BudgetAccountant \<Rightarrow> real \<Rightarrow> error + 'p option" where
  "compose_distributions lib a noise_std = compose_loop lib a noise_std (mechanisms a) None"

text \<open>\<open>self._compose_distributions(s).get_epsilon_for_delta(self._total_delta)\<close>\<close>

definition composed_epsilon :: "'p pldlib \<Rightarrow> BudgetAccountant \<Rightarrow> real \<Rightarrow> error + real" where
  "composed_epsilon lib a noise_std =
     (case compose_distributions lib a noise_std of
        Inl e \<Rightarrow> Inl e
      | Inr None \<Rightarrow> Inl AttributeError
      | Inr (Some pld) \<Rightarrow> Inr (get_epsilon_for_delta lib pld (total_delta a)))"

text \<open>The two \<open>while\<close> loops of the search, over any function \<open>f\<close> that gives the composed
  epsilon of a trial noise, with the rounding \<open>rnd\<close> of the float arithmetic. A loop that
  does not end has the value \<open>None\<close>.\<close>

partial_function (option) max_noise_std_loop ::
  "(real \<Rightarrow> real) \<Rightarrow> (real \<Rightarrow> error + real) \<Rightarrow> real \<Rightarrow> real \<Rightarrow> real \<Rightarrow> (error + real) option"
where
  "max_noise_std_loop rnd f tot_eps max_noise_std pld_epsilon =
     (if pld_epsilon > tot_eps
      then (case f (rnd (max_noise_std * 2)) of
              Inl e \<Rightarrow> Some (Inl e)
            | Inr pld_epsilon' \<Rightarrow>
                max_noise_std_loop rnd f tot_eps (rnd (max_noise_std * 2)) pld_epsilon')
      else Some (Inr max_noise_std))"

definition calculate_max_noise_std ::
  "(real \<Rightarrow> real) \<Rightarrow> (real \<Rightarrow> error + real) \<Rightarrow> real \<Rightarrow> (error + real) option" where
  "calculate_max_noise_std rnd f tot_eps = max_noise_std_loop rnd f tot_eps 1 (rnd (tot_eps + 1))"

text \<open>The literal \<open>1e-4\<close> is the float next to \<open>1 / 10000\<close>.\<close>

definition threshold :: "(real \<Rightarrow> real) \<Rightarrow> real" where
  "threshold rnd = rnd (1 / 10000)"

partial_function (option) search_loop ::
  "(real \<Rightarrow> real) \<Rightarrow> (real \<Rightarrow> error + real) \<Rightarrow> real \<Rightarrow> real \<Rightarrow> real
     \<Rightarrow> (error + real \<times> real) option" where
  "search_loop rnd f tot_eps low high =
     (if rnd (low + threshold rnd) < high
      then (let mid = rnd (rnd (rnd (high - low) / 2) + low)
            in case f mid of
                 Inl e \<Rightarrow> Some (Inl e)
               | Inr pld_epsilon \<Rightarrow>
                   if pld_epsilon \<le> tot_eps then search_loop rnd f tot_eps low mid
                   else if pld_epsilon > tot_eps then search_loop rnd f tot_eps mid high
                   else search_loop rnd f tot_eps low high)
      else Some (Inr (low, high)))"

definition find_minimum_noise_std ::
  "(real \<Rightarrow> real) \<Rightarrow> (real \<Rightarrow> error + real) \<Rightarrow> real \<Rightarrow> (error + real) option" where
  "find_minimum_noise_std rnd f tot_eps =
     (case calculate_max_noise_std rnd f tot_eps of
        None \<Rightarrow> None
      | Some (Inl e) \<Rightarrow> Some (Inl e)
      | Some (Inr maximum_noise_std) \<Rightarrow>
          (case search_loop rnd f tot_eps 0 maximum_noise_std of
             None \<Rightarrow> None
           | Some (Inl e) \<Rightarrow> Some (Inl e)
           | Some (Inr (low, high)) \<Rightarrow> Some (Inr high)))"

text \<open>The branch \<open>self._total_delta == 0\<close> of \<open>compute_budgets\<close>.\<close>

definition closed_form_noise_std :: "BudgetAccountant \<Rightarrow> error + real" where
  "closed_form_noise_std a =
     (let sum_weights = fold (\<lambda>mechanism s. s + weight mechanism) (mechanisms a) 0
      in case py_div sum_weights (total_epsilon a) of
           Inl e \<Rightarrow> Inl e
         | Inr q \<Rightarrow> Inr (q * sqrt 2))"

text \<open>The body of the last loop of \<open>compute_budgets\<close>.\<close>

definition PLD_assign ::
  "BudgetAccountant \<Rightarrow> real \<Rightarrow> MechanismSpecInternal \<Rightarrow> error option \<times> MechanismSpecInternal"
where
  "PLD_assign a min_noise_std mechanism =
     (case py_div (sensitivity mechanism * min_noise_std) (weight mechanism) of
        Inl e \<Rightarrow> (Some e, mechanism)
      | Inr mechanism_noise_std \<Rightarrow>
          let m1 = mechanism\<lparr>mechanism_spec :=
                     (mechanism_spec mechanism)\<lparr>u_noise_standard_deviation :=
                                                  Some mechanism_noise_std\<rparr>\<rparr>
          in if mechanism_type (mechanism_spec m1) = GENERIC
             then (case py_div (sqrt 2) mechanism_noise_std of
                     Inl e \<Rightarrow> (Some e, m1)
                   | Inr epsilon_0 \<Rightarrow>
                       (case py_div epsilon_0 (total_epsilon a) of
                          Inl e \<Rightarrow> (Some e, m1)
                        | Inr q \<Rightarrow>
                            (case set_eps_delta (mechanism_spec m1) (Some epsilon_0)
                                    (Some (q * total_delta a)) of
                               Inl e \<Rightarrow> (Some e, m1)
                             | Inr sp \<Rightarrow> (None, m1\<lparr>mechanism_spec := sp\<rparr>))))
             else (None, m1))"

definition PLD_compute_budgets ::
  "'p pldlib \<Rightarrow> BudgetAccountant \<Rightarrow> ((error + unit) \<times> BudgetAccountant) option" where
  "PLD_compute_budgets lib a =
     (case finalize a of
        (Inl e, a1) \<Rightarrow> Some (Inl e, a1)
      | (Inr _, a1) \<Rightarrow>
          if mechanisms a1 = [] then Some (Inr (), a1)
          else if scopes_stack a1 \<noteq> [] then Some (Inl ComputeInsideScope, a1)
          else
            (case (if total_delta a1 = 0 then Some (closed_form_noise_std a1)
                   else find_minimum_noise_std (round_float lib) (composed_epsilon lib a1)
                          (total_epsilon a1)) of
               None \<Rightarrow> None
             | Some (Inl e) \<Rightarrow> Some (Inl e, a1)
             | Some (Inr min_noise_std) \<Rightarrow>
                 let a2 = a1\<lparr>minimum_noise_std := Some min_noise_std\<rparr>
                 in (case for_each (PLD_assign a2 min_noise_std) (mechanisms a2) of
                       (Some e, ms) \<Rightarrow> Some (Inl e, a2\<lparr>mechanisms := ms\<rparr>)
                     | (None, ms) \<Rightarrow> Some (Inr (), a2\<lparr>mechanisms := ms\<rparr>))))"

subsection \<open>The abstract methods, by the class of the object\<close>

definition request_budget ::
  "BudgetAccountant \<Rightarrow> MechanismType \<Rightarrow> real \<Rightarrow> real \<Rightarrow> int \<Rightarrow> real option
     \<Rightarrow> (error + nat) \<times> BudgetAccountant" where
  "request_budget a t sens w c noise_std =
     (case accountant_class a of
        NaiveBudgetAccountant \<Rightarrow> Naive_request_budget a t sens w c noise_std
      | PLDBudgetAccountant \<Rightarrow> PLD_request_budget a t sens w c noise_std)"

definition compute_budgets ::
  "'p pldlib \<Rightarrow> BudgetAccountant \<Rightarrow> ((error + unit) \<times> BudgetAccountant) option" where
  "compute_budgets lib a =
     (case accountant_class a of
        NaiveBudgetAccountant \<Rightarrow> Some (Naive_compute_budgets a)
      | PLDBudgetAccountant \<Rightarrow> PLD_compute_budgets lib a)"

subsection \<open>Call sequences\<close>

text \<open>One call of a method by the caller, and the accountant it leaves behind, whether the
  call returns or raises. \<open>Enter\<close> and \<open>Exit\<close> are \<open>__enter__\<close> and \<open>__exit__\<close> of a scope
  that \<open>scope()\<close> has made before. A \<open>compute_budgets\<close> that does not return leaves nothing
  behind.\<close>

datatype call =
    RequestBudget MechanismType real real int "real option"
  | Scope real bool
  | Enter nat
  | Exit nat
  | ComputeBudgets

inductive step :: "'p pldlib \<Rightarrow> BudgetAccountant \<Rightarrow> call \<Rightarrow> BudgetAccountant \<Rightarrow> bool"
  for lib :: "'p pldlib" where
  step_request:
    "step lib a (RequestBudget t sens w c noise_std) (snd (request_budget a t sens w c noise_std))"
| step_scope:
    "step lib a (Scope w aggregation_scope) (snd (scope a w aggregation_scope))"
| step_enter:
    "sid < length (scope_heap a) \<Longrightarrow> step lib a (Enter sid) (snd (BudgetAccountantScope_enter a sid))"
| step_exit:
    "sid < length (scope_heap a) \<Longrightarrow> step lib a (Exit sid) (snd (BudgetAccountantScope_exit a sid))"
| step_compute:
    "compute_budgets lib a = Some (r, a') \<Longrightarrow> step lib a ComputeBudgets a'"

definition fresh_accountant :: "BudgetAccountant \<Rightarrow> bool" where
  "fresh_accountant a =
     (\<exists>epsilon dlt discretization n ws.
        NaiveBudgetAccountant_init epsilon dlt n ws = Inr a
        \<or> PLDBudgetAccountant_init epsilon dlt discretization n ws = Inr a)"

inductive reachable :: "'p pldlib \<Rightarrow> BudgetAccountant \<Rightarrow> bool" for lib :: "'p pldlib" where
  reachable_init: "fresh_accountant a \<Longrightarrow> reachable lib a"
| reachable_step: "reachable lib a \<Longrightarrow> step lib a c a' \<Longrightarrow> reachable lib a'"

section \<open>Quantities of the specification and concrete accountants\<close>

text \<open>A scope of weight 1 that holds one mechanism of weight 0.\<close>

definition zero_weight_scope_state :: BudgetAccountant where
  "zero_weight_scope_state =
     snd (Naive_request_budget
            (snd (BudgetAccountantScope_enter
                    (snd (scope (new_accountant NaiveBudgetAccountant 1 0 0 None None) 1 False)) 0))
            LAPLACE 1 0 1 None)"

text \<open>A scope of weight 2 that holds mechanisms of weights 1 and 3.\<close>

definition two_weights_scope_state :: BudgetAccountant where
  "two_weights_scope_state =
     snd (Naive_request_budget
            (snd (Naive_request_budget
               (snd (BudgetAccountantScope_enter
                       (snd (scope (new_accountant NaiveBudgetAccountant 1 0 0 None None) 2 False)) 0))
               LAPLACE 1 1 1 None))
            LAPLACE 1 3 1 None)"

text \<open>The sums of the claim about the proportional split, in the words of the
  specification: \<open>W_eps\<close> is the sum of \<open>weight(m) * count(m)\<close> over all mechanisms,
  \<open>W_delta\<close> the same sum over the mechanisms whose type uses delta; \<open>value_or_zero\<close>
  reads the value that a property returned.\<close>

definition W_eps :: "MechanismSpecInternal list \<Rightarrow> real" where
  "W_eps ms = (\<Sum>m\<leftarrow>ms. weight m * real_of_int (count (mechanism_spec m)))"

definition W_delta :: "MechanismSpecInternal list \<Rightarrow> real" where
  "W_delta ms =
     (\<Sum>m\<leftarrow>filter (\<lambda>m. use_delta (mechanism_spec m)) ms.
        weight m * real_of_int (count (mechanism_spec m)))"

definition value_or_zero :: "error + real \<Rightarrow> real" where
  "value_or_zero r = (case r of Inl e \<Rightarrow> 0 | Inr v \<Rightarrow> v)"

text \<open>Accountants for the proportional split.\<close>

definition counted_laplace_state :: BudgetAccountant where
  "counted_laplace_state =
     snd (Naive_request_budget (new_accountant NaiveBudgetAccountant 1 0 0 None None)
            LAPLACE 1 1 2 None)"

definition negative_gaussian_state :: BudgetAccountant where
  "negative_gaussian_state =
     snd (Naive_request_budget (new_accountant NaiveBudgetAccountant 1 (1 / 2) 0 None None)
            GAUSSIAN 1 (- 1) 1 None)"

definition mixed_naive_state :: BudgetAccountant where
  "mixed_naive_state =
     snd (Naive_request_budget
            (snd (Naive_request_budget (new_accountant NaiveBudgetAccountant 1 (1 / 2) 0 None None)
                    LAPLACE 1 1 2 None))
            GAUSSIAN 1 2 1 None)"

text \<open>A stand-in for the dp\_accounting library, for running the PLD accountant on
  concrete inputs: a distribution is its epsilon, a mechanism of noise parameter \<open>b\<close> has
  epsilon \<open>1 / b\<close>, and composition adds; the arithmetic is exact.\<close>

definition toy_pldlib :: "real pldlib" where
  "toy_pldlib =
     \<lparr>from_laplace_mechanism = (\<lambda>b d. 1 / b),
      from_gaussian_mechanism = (\<lambda>sd d. 1 / sd),
      from_privacy_parameters = (\<lambda>e dl d. e),
      compose = (\<lambda>p q. p + q),
      get_epsilon_for_delta = (\<lambda>p dl. p),
      round_float = (\<lambda>x. x)\<rparr>"

text \<open>An accountant of the given class inside one open scope, with no mechanism.\<close>

definition open_scope_state :: "accountant_class \<Rightarrow> BudgetAccountant" where
  "open_scope_state cls =
     snd (BudgetAccountantScope_enter
            (snd (scope (new_accountant cls 1 0 0 None None) 1 False)) 0)"

text \<open>An accountant with neither \<open>n_aggregations\<close> nor \<open>aggregation_weights\<close>, inside
  \<open>with accountant.scope(1, aggregation_scope=True)\<close>; and one with \<open>n_aggregations = 2\<close>.\<close>

definition unconstrained_aggregation_state :: BudgetAccountant where
  "unconstrained_aggregation_state =
     snd (BudgetAccountantScope_enter
            (snd (scope (new_accountant NaiveBudgetAccountant 1 0 0 None None) 1 True)) 0)"

definition two_aggregations_state :: BudgetAccountant where
  "two_aggregations_state = new_accountant NaiveBudgetAccountant 1 0 0 (Some 2) None"

text \<open>A sequence of calls, one after the other.\<close>

inductive steps :: "'p pldlib \<Rightarrow> BudgetAccountant \<Rightarrow> call list \<Rightarrow> BudgetAccountant \<Rightarrow> bool"
  for lib :: "'p pldlib" where
  steps_Nil: "steps lib a [] a"
| steps_Cons: "step lib a c a' \<Longrightarrow> steps lib a' cs a'' \<Longrightarrow> steps lib a (c # cs) a''"

text \<open>A \<open>MechanismSpec\<close> none of whose three lazy fields has been written.\<close>

definition unset :: "MechanismSpec \<Rightarrow> bool" where
  "unset sp = (u_noise_standard_deviation sp = None \<and> u_eps sp = None \<and> u_delta sp = None)"

text \<open>PLD accountants with the budget \<open>(2, 0)\<close>: one Laplace mechanism of sensitivity 1 and
  weight 1; a Laplace and a generic mechanism, both of sensitivity 1 and weight 1.\<close>

definition pld_laplace_state :: BudgetAccountant where
  "pld_laplace_state =
     snd (PLD_request_budget (new_accountant PLDBudgetAccountant 2 0 (1 / 10000) None None)
            LAPLACE 1 1 1 None)"

definition pld_generic_state :: BudgetAccountant where
  "pld_generic_state =
     snd (PLD_request_budget
            (snd (PLD_request_budget
                    (new_accountant PLDBudgetAccountant 2 0 (1 / 10000) None None)
                    LAPLACE 1 1 1 None))
            GENERIC 1 1 1 None)"

text \<open>Every position in the list of a scope names a mechanism of the registry.\<close>

definition references_valid :: "BudgetAccountant \<Rightarrow> bool" where
  "references_valid a =
     (\<forall>s\<in>set (scope_heap a). \<forall>i\<in>set (scope_mechanisms s). i < length (mechanisms a))"

text \<open>An aggregation scope is open: one is on the stack of scopes.\<close>

definition aggregation_scope_open :: "BudgetAccountant \<Rightarrow> bool" where
  "aggregation_scope_open a =
     (\<exists>sid\<in>set (scopes_stack a). is_aggregation_scope (scope_heap a ! sid))"

text \<open>The condition on \<open>__enter__\<close> in call sequences that enter a scope only while it
  is not on the stack, and an aggregation scope only while the accountant is not
  inside one (\<open>_inside_aggregation_scope\<close> is not set); and the accountants that such
  call sequences reach.\<close>

definition enters_in_order :: "BudgetAccountant \<Rightarrow> call \<Rightarrow> bool" where
  "enters_in_order a c =
     (case c of
        Enter sid \<Rightarrow>
          sid \<notin> set (scopes_stack a)
          \<and> (is_aggregation_scope (scope_heap a ! sid) \<longrightarrow> \<not> inside_aggregation_scope a)
      | _ \<Rightarrow> True)"

inductive disciplined :: "'p pldlib \<Rightarrow> BudgetAccountant \<Rightarrow> bool" for lib :: "'p pldlib" where
  disciplined_init: "fresh_accountant a \<Longrightarrow> disciplined lib a"
| disciplined_step:
    "disciplined lib a \<Longrightarrow> step lib a c a' \<Longrightarrow> enters_in_order a c \<Longrightarrow> disciplined lib a'"

text \<open>What such call sequences keep true: the stack names scopes that exist, nothing
  stands twice on the stack or in the list of a scope, and the flag
  \<open>_inside_aggregation_scope\<close> is set exactly when an aggregation scope is on the stack,
  where there is at most one.\<close>

definition aggregation_scopes_on_stack :: "BudgetAccountant \<Rightarrow> nat list" where
  "aggregation_scopes_on_stack a =
     filter (\<lambda>sid. is_aggregation_scope (scope_heap a ! sid)) (scopes_stack a)"

definition usage_invariant :: "BudgetAccountant \<Rightarrow> bool" where
  "usage_invariant a =
     ((\<forall>sid\<in>set (scopes_stack a). sid < length (scope_heap a))
      \<and> distinct (scopes_stack a)
      \<and> (\<forall>s\<in>set (scope_heap a). distinct (scope_mechanisms s))
      \<and> (inside_aggregation_scope a \<longleftrightarrow> aggregation_scopes_on_stack a \<noteq> [])
      \<and> length (aggregation_scopes_on_stack a) \<le> 1)"

text \<open>\<open>s = accountant.scope(1)\<close>, then \<open>with s: with s: request_budget(LAPLACE, 1, 1, 1)\<close>,
  before the inner exit.\<close>

definition twice_entered_state :: BudgetAccountant where
  "twice_entered_state =
     snd (Naive_request_budget
            (snd (BudgetAccountantScope_enter
                    (snd (BudgetAccountantScope_enter
                            (snd (scope (new_accountant NaiveBudgetAccountant 1 0 0 None None) 1 False))
                            0))
                    0))
            LAPLACE 1 1 1 None)"

text \<open>With \<open>aggregation_weights = [1, 1, 1]\<close>: two aggregation scopes are made, then the
  first is entered, then the second is entered and left; the first is still open.\<close>

definition early_made_scopes_state :: BudgetAccountant where
  "early_made_scopes_state =
     snd (BudgetAccountantScope_exit
            (snd (BudgetAccountantScope_enter
                    (snd (BudgetAccountantScope_enter
                            (snd (scope
                                    (snd (scope (new_accountant NaiveBudgetAccountant 1 0 0 None
                                                   (Some [1, 1, 1])) 1 True))
                                    1 True))
                            0))
                    1))
            1)"

text \<open>With \<open>n_aggregations = 2\<close>, inside \<open>with accountant.scope(1, aggregation_scope=True)\<close>.\<close>

definition entered_aggregation_state :: BudgetAccountant where
  "entered_aggregation_state =
     snd (BudgetAccountantScope_enter (snd (scope two_aggregations_state 1 True)) 0)"

section \<open>Properties\<close>

subsection \<open>Scope exit\<close>


lemma length_fold_scale_weight:
  "length (fold (scale_weight k) is ms) = length ms"
  by (induction "is" arbitrary: ms) (simp_all add: scale_weight_def)

lemma nth_fold_scale_weight:
  "\<forall>i\<in>set is. i < length ms \<Longrightarrow> j < length ms \<Longrightarrow>
     weight (fold (scale_weight k) is ms ! j) = weight (ms ! j) * k ^ count_list is j
     \<and> sensitivity (fold (scale_weight k) is ms ! j) = sensitivity (ms ! j)
     \<and> mechanism_spec (fold (scale_weight k) is ms ! j) = mechanism_spec (ms ! j)"
proof (induction "is" arbitrary: ms)
  case Nil
  then show ?case by simp
next
  case (Cons i "is")
  let ?ms1 = "scale_weight k i ms"
  have len: "length ?ms1 = length ms" by (simp add: scale_weight_def)
  have ih: "weight (fold (scale_weight k) is ?ms1 ! j) = weight (?ms1 ! j) * k ^ count_list is j
     \<and> sensitivity (fold (scale_weight k) is ?ms1 ! j) = sensitivity (?ms1 ! j)
     \<and> mechanism_spec (fold (scale_weight k) is ?ms1 ! j) = mechanism_spec (?ms1 ! j)"
    using Cons.IH [of ?ms1] Cons.prems len by simp
  have i: "i < length ms" using Cons.prems by simp
  have hd: "weight (?ms1 ! j) = weight (ms ! j) * (if i = j then k else 1)
      \<and> sensitivity (?ms1 ! j) = sensitivity (ms ! j)
      \<and> mechanism_spec (?ms1 ! j) = mechanism_spec (ms ! j)"
    using i Cons.prems(2) by (simp add: scale_weight_def nth_list_update)
  have unfold: "fold (scale_weight k) (i # is) ms = fold (scale_weight k) is ?ms1"
    by simp
  show ?case
    unfolding unfold using ih hd by simp
qed


lemma normalise_empty:
  "scope_mechanisms s = [] \<Longrightarrow> normalise_mechanism_weights s ms = Inr ms"
  by (simp add: normalise_mechanism_weights_def)

lemma normalise_nonzero:
  "total_weight s ms \<noteq> 0 \<Longrightarrow>
   normalise_mechanism_weights s ms =
     Inr (fold (scale_weight (scope_weight s / total_weight s ms)) (scope_mechanisms s) ms)"
  by (auto simp add: normalise_mechanism_weights_def py_div_def total_weight_def)

lemma exit_scope_nonempty:
  "scopes_stack a \<noteq> [] \<Longrightarrow>
     fst (exit_scope a) = Inr () \<and> mechanisms (snd (exit_scope a)) = mechanisms a
     \<and> scope_heap (snd (exit_scope a)) = scope_heap a"
  by (simp add: exit_scope_def Let_def)

lemma zero_weight_scope_state_eq:
  "zero_weight_scope_state =
     \<lparr>accountant_class = NaiveBudgetAccountant, scopes_stack = [0],
      mechanisms = [new_mechanism LAPLACE 1 0 1], finalized = False,
      n_aggregations = None, aggregation_weights = None, next_aggregation_index = 0,
      inside_aggregation_scope = False, total_epsilon = 1, total_delta = 0,
      minimum_noise_std = None, pld_discretization = 0,
      scope_heap = [\<lparr>scope_weight = 1, index_aggregation_scope = None, scope_epsilon = None,
                     scope_delta = None, scope_mechanisms = [0]\<rparr>]\<rparr>"
  by (simp add: zero_weight_scope_state_def Naive_request_budget_def BudgetAccountantScope_enter_def
      scope_def new_accountant_def truthy_int_def truthy_list_def new_scope_def
      BudgetAccountantScope_init_def enter_scope_def is_aggregation_scope_def
      register_mechanism_def append_to_scope_def Let_def)

lemma BudgetAccountantScope_exit_normalises:
  assumes "scopes_stack a \<noteq> []"
    and "\<forall>i\<in>set (scope_mechanisms (scope_heap a ! sid)). i < length (mechanisms a)"
  shows "(scope_mechanisms (scope_heap a ! sid) = [] \<longrightarrow>
            fst (BudgetAccountantScope_exit a sid) = Inr ()
            \<and> mechanisms (snd (BudgetAccountantScope_exit a sid)) = mechanisms a)
       \<and> (total_weight (scope_heap a ! sid) (mechanisms a) \<noteq> 0 \<longrightarrow>
            fst (BudgetAccountantScope_exit a sid) = Inr ()
            \<and> length (mechanisms (snd (BudgetAccountantScope_exit a sid))) = length (mechanisms a)
            \<and> (\<forall>j<length (mechanisms a).
                  weight (mechanisms (snd (BudgetAccountantScope_exit a sid)) ! j) =
                    weight (mechanisms a ! j)
                    * (scope_weight (scope_heap a ! sid)
                       / total_weight (scope_heap a ! sid) (mechanisms a))
                      ^ count_list (scope_mechanisms (scope_heap a ! sid)) j
                  \<and> sensitivity (mechanisms (snd (BudgetAccountantScope_exit a sid)) ! j) =
                      sensitivity (mechanisms a ! j)
                  \<and> mechanism_spec (mechanisms (snd (BudgetAccountantScope_exit a sid)) ! j) =
                      mechanism_spec (mechanisms a ! j)))"
proof -
  obtain a1 where a1: "exit_scope a = (Inr (), a1)" "mechanisms a1 = mechanisms a"
    "scope_heap a1 = scope_heap a"
    using exit_scope_nonempty [OF assms(1)] by (cases "exit_scope a") auto
  let ?s = "scope_heap a ! sid"
  have empty: "scope_mechanisms ?s = [] \<Longrightarrow>
      BudgetAccountantScope_exit a sid = (Inr (), a1\<lparr>mechanisms := mechanisms a\<rparr>)"
    using a1 by (simp add: BudgetAccountantScope_exit_def normalise_empty)
  let ?k = "scope_weight ?s / total_weight ?s (mechanisms a)"
  have nonzero: "total_weight ?s (mechanisms a) \<noteq> 0 \<Longrightarrow>
      BudgetAccountantScope_exit a sid =
        (Inr (), a1\<lparr>mechanisms := fold (scale_weight ?k) (scope_mechanisms ?s) (mechanisms a)\<rparr>)"
    using a1 by (simp add: BudgetAccountantScope_exit_def normalise_nonzero)
  show ?thesis
  proof (intro conjI impI)
    assume "scope_mechanisms ?s = []"
    then show "fst (BudgetAccountantScope_exit a sid) = Inr ()"
      and "mechanisms (snd (BudgetAccountantScope_exit a sid)) = mechanisms a"
      using empty by simp_all
  next
    assume nz: "total_weight ?s (mechanisms a) \<noteq> 0"
    show "fst (BudgetAccountantScope_exit a sid) = Inr ()"
      using nonzero [OF nz] by simp
    show "length (mechanisms (snd (BudgetAccountantScope_exit a sid))) = length (mechanisms a)"
      using nonzero [OF nz] by (simp add: length_fold_scale_weight)
    show "\<forall>j<length (mechanisms a).
            weight (mechanisms (snd (BudgetAccountantScope_exit a sid)) ! j) =
              weight (mechanisms a ! j) * ?k ^ count_list (scope_mechanisms ?s) j
            \<and> sensitivity (mechanisms (snd (BudgetAccountantScope_exit a sid)) ! j) =
                sensitivity (mechanisms a ! j)
            \<and> mechanism_spec (mechanisms (snd (BudgetAccountantScope_exit a sid)) ! j) =
                mechanism_spec (mechanisms a ! j)"
      using nonzero [OF nz] nth_fold_scale_weight [OF assms(2)] by simp
  qed
qed

lemma two_weights_scope_state_eq:
  "two_weights_scope_state =
     \<lparr>accountant_class = NaiveBudgetAccountant, scopes_stack = [0],
      mechanisms = [new_mechanism LAPLACE 1 1 1, new_mechanism LAPLACE 1 3 1], finalized = False,
      n_aggregations = None, aggregation_weights = None, next_aggregation_index = 0,
      inside_aggregation_scope = False, total_epsilon = 1, total_delta = 0,
      minimum_noise_std = None, pld_discretization = 0,
      scope_heap = [\<lparr>scope_weight = 2, index_aggregation_scope = None, scope_epsilon = None,
                     scope_delta = None, scope_mechanisms = [0, 1]\<rparr>]\<rparr>"
  by (simp add: two_weights_scope_state_def Naive_request_budget_def BudgetAccountantScope_enter_def
      scope_def new_accountant_def truthy_int_def truthy_list_def new_scope_def
      BudgetAccountantScope_init_def enter_scope_def is_aggregation_scope_def
      register_mechanism_def append_to_scope_def Let_def)

subsection \<open>The proportional split of NaiveBudgetAccountant\<close>

lemma fold_add_weights:
  "fold add_weights ms (e, d) = (e + W_eps ms, d + W_delta ms)"
  by (induction ms arbitrary: e d) (simp_all add: add_weights_def W_eps_def W_delta_def)

lemma total_weights_eq: "total_weights ms = (W_eps ms, W_delta ms)"
  by (simp add: total_weights_def fold_add_weights)

lemma for_each_no_error:
  "(\<And>x. fst (body x) = None) \<Longrightarrow> for_each body xs = (None, map (\<lambda>x. snd (body x)) xs)"
proof (induction xs)
  case Nil
  then show ?case by simp
next
  case (Cons x xs)
  obtain y where "body x = (None, y)"
    using Cons.prems [of x] by (cases "body x") auto
  then show ?case using Cons by simp
qed

lemma naive_assign_eq:
  "naive_assign te td totals m =
     (None, m\<lparr>mechanism_spec := (mechanism_spec m)
                 \<lparr>u_eps := Some (naive_eps te (fst totals) m),
                  u_delta := Some (naive_delta td (snd totals) m)\<rparr>\<rparr>)"
  by (simp add: naive_assign_def set_eps_delta_def)

lemma Naive_compute_budgets_success:
  assumes "Naive_compute_budgets a = (Inr (), a')" and "mechanisms a \<noteq> []"
  shows "a' = a\<lparr>finalized := True,
               mechanisms := map (\<lambda>m. m\<lparr>mechanism_spec := (mechanism_spec m)
                 \<lparr>u_eps := Some (naive_eps (total_epsilon a) (W_eps (mechanisms a)) m),
                  u_delta := Some (naive_delta (total_delta a) (W_delta (mechanisms a)) m)\<rparr>\<rparr>)
                 (mechanisms a)\<rparr>"
  using assms
  by (auto simp add: Naive_compute_budgets_def finalize_def total_weights_eq
      for_each_no_error naive_assign_eq split: sum.splits if_splits prod.splits)

lemma sum_list_count_share:
  "(\<Sum>m\<leftarrow>ms. c m * (t * w m / W)) = t * (\<Sum>m\<leftarrow>ms. w m * c m) / (W::real)"
  by (induction ms) (simp_all add: algebra_simps add_divide_distrib)

text \<open>
  Claim C1, as the code has it. When \<open>compute_budgets\<close> of a NaiveBudgetAccountant returns
  with at least one registered mechanism, with \<open>W_eps\<close> the sum of
  \<open>weight(m) * count(m)\<close> over all mechanisms and \<open>W_delta\<close> the same sum over the
  mechanisms that use delta: every mechanism gets
  \<open>eps = total_epsilon * weight(m) / W_eps\<close> (0 if \<open>W_eps = 0\<close>) and
  \<open>delta = total_delta * weight(m) / W_delta\<close> if it uses delta and \<open>W_delta \<noteq> 0\<close>,
  else 0; the sum of \<open>count(m) * eps(m)\<close> is \<open>total_epsilon\<close> when \<open>W_eps \<noteq> 0\<close>, and
  the sum of \<open>count(m) * delta(m)\<close> over the mechanisms that use delta is
  \<open>total_delta\<close> when \<open>W_delta \<noteq> 0\<close>.
\<close>

theorem Naive_compute_budgets_split:
  assumes "Naive_compute_budgets a = (Inr (), a')" and "mechanisms a \<noteq> []"
  shows "length (mechanisms a') = length (mechanisms a)
     \<and> (\<forall>i<length (mechanisms a).
           eps (mechanism_spec (mechanisms a' ! i)) =
             Inr (if W_eps (mechanisms a) = 0 then 0
                  else total_epsilon a * weight (mechanisms a ! i) / W_eps (mechanisms a))
         \<and> delta (mechanism_spec (mechanisms a' ! i)) =
             Inr (if use_delta (mechanism_spec (mechanisms a ! i)) \<and> W_delta (mechanisms a) \<noteq> 0
                  then total_delta a * weight (mechanisms a ! i) / W_delta (mechanisms a)
                  else 0)
         \<and> weight (mechanisms a' ! i) = weight (mechanisms a ! i)
         \<and> count (mechanism_spec (mechanisms a' ! i)) = count (mechanism_spec (mechanisms a ! i))
         \<and> mechanism_type (mechanism_spec (mechanisms a' ! i)) =
             mechanism_type (mechanism_spec (mechanisms a ! i)))
     \<and> (W_eps (mechanisms a) \<noteq> 0 \<longrightarrow>
          (\<Sum>m\<leftarrow>mechanisms a'. real_of_int (count (mechanism_spec m))
                                  * value_or_zero (eps (mechanism_spec m))) = total_epsilon a)
     \<and> (W_delta (mechanisms a) \<noteq> 0 \<longrightarrow>
          (\<Sum>m\<leftarrow>filter (\<lambda>m. use_delta (mechanism_spec m)) (mechanisms a').
              real_of_int (count (mechanism_spec m))
              * value_or_zero (delta (mechanism_spec m))) = total_delta a)"
proof -
  let ?ms = "mechanisms a"
  let ?g = "\<lambda>m. m\<lparr>mechanism_spec := (mechanism_spec m)
                 \<lparr>u_eps := Some (naive_eps (total_epsilon a) (W_eps ?ms) m),
                  u_delta := Some (naive_delta (total_delta a) (W_delta ?ms) m)\<rparr>\<rparr>"
  have ms': "mechanisms a' = map ?g ?ms"
    using Naive_compute_budgets_success [OF assms] by simp
  have pointwise: "\<forall>i<length ?ms.
           eps (mechanism_spec (mechanisms a' ! i)) =
             Inr (if W_eps ?ms = 0 then 0
                  else total_epsilon a * weight (?ms ! i) / W_eps ?ms)
         \<and> delta (mechanism_spec (mechanisms a' ! i)) =
             Inr (if use_delta (mechanism_spec (?ms ! i)) \<and> W_delta ?ms \<noteq> 0
                  then total_delta a * weight (?ms ! i) / W_delta ?ms
                  else 0)
         \<and> weight (mechanisms a' ! i) = weight (?ms ! i)
         \<and> count (mechanism_spec (mechanisms a' ! i)) = count (mechanism_spec (?ms ! i))
         \<and> mechanism_type (mechanism_spec (mechanisms a' ! i)) =
             mechanism_type (mechanism_spec (?ms ! i))"
    by (simp add: ms' eps_def delta_def naive_eps_def naive_delta_def count_def)
  have sum_eps: "(\<Sum>m\<leftarrow>mechanisms a'. real_of_int (count (mechanism_spec m))
                     * value_or_zero (eps (mechanism_spec m))) = total_epsilon a"
    if nz: "W_eps ?ms \<noteq> 0"
  proof -
    have "(\<Sum>m\<leftarrow>mechanisms a'. real_of_int (count (mechanism_spec m))
                     * value_or_zero (eps (mechanism_spec m)))
        = (\<Sum>m\<leftarrow>?ms. real_of_int (count (mechanism_spec m))
                     * (total_epsilon a * weight m / W_eps ?ms))"
      using nz by (simp add: ms' comp_def eps_def value_or_zero_def naive_eps_def count_def)
    also have "\<dots> = total_epsilon a
                      * (\<Sum>m\<leftarrow>?ms. weight m * real_of_int (count (mechanism_spec m)))
                      / W_eps ?ms"
      by (rule sum_list_count_share)
    also have "\<dots> = total_epsilon a"
      using nz by (simp add: W_eps_def)
    finally show ?thesis .
  qed
  have sum_delta: "(\<Sum>m\<leftarrow>filter (\<lambda>m. use_delta (mechanism_spec m)) (mechanisms a').
              real_of_int (count (mechanism_spec m))
              * value_or_zero (delta (mechanism_spec m))) = total_delta a"
    if nz: "W_delta ?ms \<noteq> 0"
  proof -
    let ?ds = "filter (\<lambda>m. use_delta (mechanism_spec m)) ?ms"
    have flt: "filter (\<lambda>m. use_delta (mechanism_spec m)) (mechanisms a') = map ?g ?ds"
      by (simp add: ms' filter_map comp_def use_delta_def)
    have "(\<Sum>m\<leftarrow>map ?g ?ds. real_of_int (count (mechanism_spec m))
              * value_or_zero (delta (mechanism_spec m)))
        = (\<Sum>m\<leftarrow>?ds. real_of_int (count (mechanism_spec m))
                     * (total_delta a * weight m / W_delta ?ms))"
      using nz
      by (auto simp add: comp_def delta_def value_or_zero_def naive_delta_def count_def
          intro!: arg_cong [where f = sum_list] map_cong)
    also have "\<dots> = total_delta a
                      * (\<Sum>m\<leftarrow>?ds. weight m * real_of_int (count (mechanism_spec m)))
                      / W_delta ?ms"
      by (rule sum_list_count_share)
    also have "\<dots> = total_delta a"
      using nz by (simp add: W_delta_def)
    finally show ?thesis using flt by simp
  qed
  show ?thesis
    using pointwise sum_eps sum_delta by (simp add: ms')
qed

lemmas build_defs =
  Naive_request_budget_def PLD_request_budget_def BudgetAccountantScope_enter_def
  scope_def new_accountant_def truthy_int_def truthy_list_def new_scope_def
  BudgetAccountantScope_init_def enter_scope_def is_aggregation_scope_def
  register_mechanism_def append_to_scope_def get_next_aggregation_index_def
  compute_budget_for_aggregation_scope_def new_mechanism_def py_div_def Let_def

lemmas naive_compute_defs =
  Naive_compute_budgets_def finalize_def check_number_aggregation_scopes_def truthy_int_def
  total_weights_def add_weights_def naive_assign_def naive_eps_def naive_delta_def
  set_eps_delta_def use_delta_def count_def

lemma counted_laplace_state_eq:
  "counted_laplace_state =
     \<lparr>accountant_class = NaiveBudgetAccountant, scopes_stack = [],
      mechanisms = [\<lparr>sensitivity = 1, weight = 1,
                     mechanism_spec = \<lparr>mechanism_type = LAPLACE,
                       u_noise_standard_deviation = None, u_eps = None, u_delta = None,
                       u_count = 2\<rparr>\<rparr>],
      finalized = False,
      n_aggregations = None, aggregation_weights = None, next_aggregation_index = 0,
      inside_aggregation_scope = False, total_epsilon = 1, total_delta = 0,
      minimum_noise_std = None, pld_discretization = 0, scope_heap = []\<rparr>"
  by (simp add: counted_laplace_state_def build_defs)

lemma negative_gaussian_state_eq:
  "negative_gaussian_state =
     \<lparr>accountant_class = NaiveBudgetAccountant, scopes_stack = [],
      mechanisms = [\<lparr>sensitivity = 1, weight = - 1,
                     mechanism_spec = \<lparr>mechanism_type = GAUSSIAN,
                       u_noise_standard_deviation = None, u_eps = None, u_delta = None,
                       u_count = 1\<rparr>\<rparr>],
      finalized = False,
      n_aggregations = None, aggregation_weights = None, next_aggregation_index = 0,
      inside_aggregation_scope = False, total_epsilon = 1, total_delta = 1 / 2,
      minimum_noise_std = None, pld_discretization = 0, scope_heap = []\<rparr>"
  by (simp add: negative_gaussian_state_def build_defs)

lemma mixed_naive_state_eq:
  "mixed_naive_state =
     \<lparr>accountant_class = NaiveBudgetAccountant, scopes_stack = [],
      mechanisms = [\<lparr>sensitivity = 1, weight = 1,
                     mechanism_spec = \<lparr>mechanism_type = LAPLACE,
                       u_noise_standard_deviation = None, u_eps = None, u_delta = None,
                       u_count = 2\<rparr>\<rparr>,
                    \<lparr>sensitivity = 1, weight = 2,
                     mechanism_spec = \<lparr>mechanism_type = GAUSSIAN,
                       u_noise_standard_deviation = None, u_eps = None, u_delta = None,
                       u_count = 1\<rparr>\<rparr>],
      finalized = False,
      n_aggregations = None, aggregation_weights = None, next_aggregation_index = 0,
      inside_aggregation_scope = False, total_epsilon = 1, total_delta = 1 / 2,
      minimum_noise_std = None, pld_discretization = 0, scope_heap = []\<rparr>"
  by (simp add: mixed_naive_state_def build_defs)

text \<open>
  One Laplace mechanism of weight 1 that is applied twice (\<open>count = 2\<close>) gets
  \<open>eps = total_epsilon / 2\<close>: the eps values do not sum to \<open>total_epsilon\<close>, each
  application gets its share. And the test of the code is \<open>W_delta \<noteq> 0\<close>: a Gaussian
  mechanism of weight \<open>-1\<close> has \<open>W_delta = -1\<close> and gets \<open>delta = total_delta\<close>, not 0.
\<close>

theorem Naive_compute_budgets_sum_counterexample:
  "fst (Naive_compute_budgets counted_laplace_state) = Inr ()
   \<and> length (mechanisms (snd (Naive_compute_budgets counted_laplace_state))) = 1
   \<and> W_eps (mechanisms counted_laplace_state) = 2
   \<and> eps (mechanism_spec (mechanisms (snd (Naive_compute_budgets counted_laplace_state)) ! 0)) = Inr (1 / 2)
   \<and> total_epsilon counted_laplace_state = 1
   \<and> fst (Naive_compute_budgets negative_gaussian_state) = Inr ()
   \<and> use_delta (mechanism_spec (mechanisms negative_gaussian_state ! 0))
   \<and> W_delta (mechanisms negative_gaussian_state) = - 1
   \<and> delta (mechanism_spec (mechanisms (snd (Naive_compute_budgets negative_gaussian_state)) ! 0))
       = Inr (1 / 2)"
  by (simp add: counted_laplace_state_eq negative_gaussian_state_eq naive_compute_defs W_eps_def W_delta_def
      eps_def delta_def)

text \<open>A Laplace mechanism of weight 1 applied twice and a Gaussian one of weight 2, with
  the budget \<open>(1, 1/2)\<close>.\<close>

theorem Naive_compute_budgets_split_witness:
  "fst (Naive_compute_budgets mixed_naive_state) = Inr ()
   \<and> mechanisms mixed_naive_state \<noteq> []
   \<and> eps (mechanism_spec (mechanisms (snd (Naive_compute_budgets mixed_naive_state)) ! 0)) = Inr (1 / 4)
   \<and> eps (mechanism_spec (mechanisms (snd (Naive_compute_budgets mixed_naive_state)) ! 1)) = Inr (1 / 2)
   \<and> delta (mechanism_spec (mechanisms (snd (Naive_compute_budgets mixed_naive_state)) ! 0)) = Inr 0
   \<and> delta (mechanism_spec (mechanisms (snd (Naive_compute_budgets mixed_naive_state)) ! 1)) = Inr (1 / 2)
   \<and> (\<Sum>m\<leftarrow>mechanisms (snd (Naive_compute_budgets mixed_naive_state)).
         real_of_int (count (mechanism_spec m)) * value_or_zero (eps (mechanism_spec m))) = 1"
proof -
  have ok: "fst (Naive_compute_budgets mixed_naive_state) = Inr ()"
    by (simp add: mixed_naive_state_eq naive_compute_defs)
  then have run: "Naive_compute_budgets mixed_naive_state
                    = (Inr (), snd (Naive_compute_budgets mixed_naive_state))"
    by (metis prod.collapse)
  have ne: "mechanisms mixed_naive_state \<noteq> []"
    by (simp add: mixed_naive_state_eq)
  have W: "W_eps (mechanisms mixed_naive_state) = 4" "W_delta (mechanisms mixed_naive_state) = 2"
    by (simp_all add: mixed_naive_state_eq W_eps_def W_delta_def use_delta_def count_def)
  have st: "total_epsilon mixed_naive_state = 1" "total_delta mixed_naive_state = 1 / 2"
    "length (mechanisms mixed_naive_state) = 2"
    "weight (mechanisms mixed_naive_state ! 0) = 1" "weight (mechanisms mixed_naive_state ! 1) = 2"
    "use_delta (mechanism_spec (mechanisms mixed_naive_state ! 0)) = False"
    "use_delta (mechanism_spec (mechanisms mixed_naive_state ! 1)) = True"
    by (simp_all add: mixed_naive_state_eq use_delta_def)
  note t = Naive_compute_budgets_split [OF run ne]
  have p0: "eps (mechanism_spec (mechanisms (snd (Naive_compute_budgets mixed_naive_state)) ! 0)) = Inr (1 / 4)
     \<and> delta (mechanism_spec (mechanisms (snd (Naive_compute_budgets mixed_naive_state)) ! 0)) = Inr 0"
    using t [THEN conjunct2, THEN conjunct1, rule_format, of 0] W st by simp
  have p1: "eps (mechanism_spec (mechanisms (snd (Naive_compute_budgets mixed_naive_state)) ! 1)) = Inr (1 / 2)
     \<and> delta (mechanism_spec (mechanisms (snd (Naive_compute_budgets mixed_naive_state)) ! 1)) = Inr (1 / 2)"
    using t [THEN conjunct2, THEN conjunct1, rule_format, of 1] W st by simp
  have s: "(\<Sum>m\<leftarrow>mechanisms (snd (Naive_compute_budgets mixed_naive_state)).
         real_of_int (count (mechanism_spec m)) * value_or_zero (eps (mechanism_spec m))) = 1"
    using t [THEN conjunct2, THEN conjunct2, THEN conjunct1] W st by simp
  show ?thesis using ok ne p0 p1 s by simp
qed

subsection \<open>compute_budgets inside a scope; nested aggregation scopes\<close>

lemma finalize_cases:
  "finalize a = (Inr (), a\<lparr>finalized := True\<rparr>) \<or> (\<exists>e. finalize a = (Inl e, a))"
  by (simp add: finalize_def split: sum.splits)

lemma open_scope_state_eq:
  "open_scope_state cls =
     \<lparr>accountant_class = cls, scopes_stack = [0], mechanisms = [], finalized = False,
      n_aggregations = None, aggregation_weights = None, next_aggregation_index = 0,
      inside_aggregation_scope = False, total_epsilon = 1, total_delta = 0,
      minimum_noise_std = None, pld_discretization = 0,
      scope_heap = [\<lparr>scope_weight = 1, index_aggregation_scope = None, scope_epsilon = None,
                     scope_delta = None, scope_mechanisms = []\<rparr>]\<rparr>"
  by (simp add: open_scope_state_def build_defs)

text \<open>
  With no mechanism registered, \<open>compute_budgets\<close> returns (after its warning) before it
  looks at the stack of scopes: called inside an open scope, it does not fail.
\<close>

theorem compute_budgets_open_scope_counterexample:
  "scopes_stack (open_scope_state NaiveBudgetAccountant) \<noteq> []
   \<and> fst (Naive_compute_budgets (open_scope_state NaiveBudgetAccountant)) = Inr ()
   \<and> scopes_stack (open_scope_state PLDBudgetAccountant) \<noteq> []
   \<and> map_option fst (PLD_compute_budgets toy_pldlib (open_scope_state PLDBudgetAccountant))
       = Some (Inr ())"
  by (simp add: open_scope_state_eq Naive_compute_budgets_def PLD_compute_budgets_def
      finalize_def check_number_aggregation_scopes_def truthy_int_def)

text \<open>
  Claim C3, as the code has it. For every budget accountant (Naive or PLD), if the stack
  of scopes is not empty and at least one mechanism has been registered when
  \<open>compute_budgets\<close> is called, the call fails: with the error of \<open>_finalize\<close> if there is
  one, else with "Cannot call compute\_budgets from within a budget scope". With no
  mechanism registered and no error of \<open>_finalize\<close> the call returns, whatever the stack.
\<close>

theorem compute_budgets_open_scope:
  assumes "scopes_stack a \<noteq> []"
  shows "(mechanisms a \<noteq> [] \<longrightarrow>
            (\<exists>e a'. compute_budgets lib a = Some (Inl e, a'))
            \<and> (fst (finalize a) = Inr () \<longrightarrow>
                 compute_budgets lib a = Some (Inl ComputeInsideScope, a\<lparr>finalized := True\<rparr>)))
       \<and> (mechanisms a = [] \<and> fst (finalize a) = Inr () \<longrightarrow>
            compute_budgets lib a = Some (Inr (), a\<lparr>finalized := True\<rparr>))"
proof -
  consider (ok) "finalize a = (Inr (), a\<lparr>finalized := True\<rparr>)" | (err) e where "finalize a = (Inl e, a)"
    using finalize_cases [of a] by blast
  then show ?thesis
  proof cases
    case ok
    then show ?thesis using assms
      by (cases "accountant_class a")
         (simp_all add: compute_budgets_def Naive_compute_budgets_def PLD_compute_budgets_def)
  next
    case err
    then show ?thesis
      by (cases "accountant_class a")
         (simp_all add: compute_budgets_def Naive_compute_budgets_def PLD_compute_budgets_def)
  qed
qed

text \<open>Two mechanisms in an open scope of a Naive accountant; no mechanism in an open scope
  of a PLD accountant.\<close>

theorem compute_budgets_open_scope_witness:
  "compute_budgets toy_pldlib two_weights_scope_state
     = Some (Inl ComputeInsideScope, two_weights_scope_state\<lparr>finalized := True\<rparr>)
   \<and> compute_budgets toy_pldlib (open_scope_state PLDBudgetAccountant)
       = Some (Inr (), (open_scope_state PLDBudgetAccountant)\<lparr>finalized := True\<rparr>)"
proof -
  have s1: "scopes_stack two_weights_scope_state \<noteq> []" "mechanisms two_weights_scope_state \<noteq> []"
    "fst (finalize two_weights_scope_state) = Inr ()"
    by (simp_all add: two_weights_scope_state_eq finalize_def check_number_aggregation_scopes_def
        truthy_int_def)
  have s2: "scopes_stack (open_scope_state PLDBudgetAccountant) \<noteq> []"
    "mechanisms (open_scope_state PLDBudgetAccountant) = []"
    "fst (finalize (open_scope_state PLDBudgetAccountant)) = Inr ()"
    by (simp_all add: open_scope_state_eq finalize_def check_number_aggregation_scopes_def
        truthy_int_def)
  show ?thesis
    using compute_budgets_open_scope [OF s1(1), of toy_pldlib]
      compute_budgets_open_scope [OF s2(1), of toy_pldlib] s1 s2
    by simp
qed

lemma new_scope_frame:
  "finalized (snd (new_scope a w idx)) = finalized a
   \<and> mechanisms (snd (new_scope a w idx)) = mechanisms a
   \<and> accountant_class (snd (new_scope a w idx)) = accountant_class a
   \<and> n_aggregations (snd (new_scope a w idx)) = n_aggregations a
   \<and> aggregation_weights (snd (new_scope a w idx)) = aggregation_weights a
   \<and> inside_aggregation_scope (snd (new_scope a w idx)) = inside_aggregation_scope a
   \<and> next_aggregation_index (snd (new_scope a w idx)) = next_aggregation_index a
   \<and> scopes_stack (snd (new_scope a w idx)) = scopes_stack a"
  by (simp add: new_scope_def split: sum.splits)

lemma scope_frame:
  "finalized (snd (scope a w ag)) = finalized a
   \<and> mechanisms (snd (scope a w ag)) = mechanisms a
   \<and> accountant_class (snd (scope a w ag)) = accountant_class a
   \<and> n_aggregations (snd (scope a w ag)) = n_aggregations a
   \<and> aggregation_weights (snd (scope a w ag)) = aggregation_weights a
   \<and> inside_aggregation_scope (snd (scope a w ag)) = inside_aggregation_scope a
   \<and> scopes_stack (snd (scope a w ag)) = scopes_stack a"
  by (simp add: scope_def get_next_aggregation_index_def new_scope_frame
      split: option.splits)

lemma enter_scope_frame:
  "finalized (enter_scope a sid) = finalized a
   \<and> mechanisms (enter_scope a sid) = mechanisms a
   \<and> accountant_class (enter_scope a sid) = accountant_class a
   \<and> n_aggregations (enter_scope a sid) = n_aggregations a
   \<and> aggregation_weights (enter_scope a sid) = aggregation_weights a
   \<and> scope_heap (enter_scope a sid) = scope_heap a"
  by (simp add: enter_scope_def Let_def)

lemma enter_scope_flag:
  "is_aggregation_scope (scope_heap a ! sid) \<Longrightarrow> inside_aggregation_scope (enter_scope a sid)"
  by (simp add: enter_scope_def Let_def)

lemma scope_nested:
  "inside_aggregation_scope a \<Longrightarrow>
   truthy_int (n_aggregations a) \<or> truthy_list (aggregation_weights a) \<Longrightarrow>
   scope a w True = (Inl NestedAggregationScopes, a)"
  by (simp add: scope_def)

lemma new_scope_result:
  "new_scope a w idx = (Inr sid, a') \<Longrightarrow>
     sid = length (scope_heap a) \<and> sid < length (scope_heap a')
     \<and> index_aggregation_scope (scope_heap a' ! sid) = idx"
  by (auto simp add: new_scope_def BudgetAccountantScope_init_def
      compute_budget_for_aggregation_scope_def Let_def
      split: sum.splits if_splits option.splits)

lemma scope_result_aggregation:
  assumes "truthy_int (n_aggregations a) \<or> truthy_list (aggregation_weights a)"
    and "scope a w True = (Inr sid, a')"
  shows "sid < length (scope_heap a') \<and> is_aggregation_scope (scope_heap a' ! sid)"
  using assms
  by (auto simp add: scope_def get_next_aggregation_index_def is_aggregation_scope_def
      split: if_splits option.splits dest!: new_scope_result)

subsection \<open>Finalisation\<close>

lemma register_mechanism_frame:
  "finalized (snd (register_mechanism a m)) = finalized a
   \<and> mechanisms (snd (register_mechanism a m)) = mechanisms a @ [m]
   \<and> fst (register_mechanism a m) = length (mechanisms a)"
  by (simp add: register_mechanism_def Let_def)

lemma request_budget_finalized:
  "finalized a \<Longrightarrow> request_budget a t sens w c n = (Inl RequestAfterCompute, a)"
  by (cases "accountant_class a")
     (simp_all add: request_budget_def Naive_request_budget_def PLD_request_budget_def)

lemma request_budget_cases:
  "(\<exists>e. request_budget a t sens w c n = (Inl e, a))
   \<or> (\<exists>c'. request_budget a t sens w c n
              = (Inr (length (mechanisms a)), snd (register_mechanism a (new_mechanism t sens w c'))))"
  by (cases "accountant_class a")
     (auto simp add: request_budget_def Naive_request_budget_def PLD_request_budget_def
        register_mechanism_def Let_def)

lemma request_budget_frame:
  "finalized (snd (request_budget a t sens w c n)) = finalized a
   \<and> (mechanisms (snd (request_budget a t sens w c n)) = mechanisms a
      \<or> (\<exists>c'. mechanisms (snd (request_budget a t sens w c n))
                 = mechanisms a @ [new_mechanism t sens w c']))"
  using request_budget_cases [of a t sens w c n]
  by (auto simp add: register_mechanism_frame)

lemma map_mechanism_spec_scale_weight:
  "map mechanism_spec (scale_weight k i ms) = map mechanism_spec ms"
proof (cases "i < length ms")
  case True
  then show ?thesis
    by (auto simp add: scale_weight_def list_eq_iff_nth_eq nth_list_update)
next
  case False
  then show ?thesis by (simp add: scale_weight_def list_update_beyond)
qed

lemma map_mechanism_spec_fold_scale_weight:
  "map mechanism_spec (fold (scale_weight k) is ms) = map mechanism_spec ms"
  by (induction "is" arbitrary: ms) (simp_all add: map_mechanism_spec_scale_weight)

lemma normalise_mechanism_weights_specs:
  "normalise_mechanism_weights s ms = Inr ms' \<Longrightarrow> map mechanism_spec ms' = map mechanism_spec ms"
  by (auto simp add: normalise_mechanism_weights_def map_mechanism_spec_fold_scale_weight
      split: if_splits sum.splits)

lemma exit_scope_frame:
  "finalized (snd (exit_scope a)) = finalized a \<and> mechanisms (snd (exit_scope a)) = mechanisms a"
  by (simp add: exit_scope_def Let_def)

lemma BudgetAccountantScope_exit_frame:
  "finalized (snd (BudgetAccountantScope_exit a sid)) = finalized a
   \<and> map mechanism_spec (mechanisms (snd (BudgetAccountantScope_exit a sid)))
       = map mechanism_spec (mechanisms a)"
proof -
  obtain r a1 where e: "exit_scope a = (r, a1)" by (cases "exit_scope a")
  then have f: "finalized a1 = finalized a" "mechanisms a1 = mechanisms a"
    using exit_scope_frame [of a] by simp_all
  show ?thesis
    using e f
    by (auto simp add: BudgetAccountantScope_exit_def
        split: sum.splits dest: normalise_mechanism_weights_specs)
qed

lemma length_for_each: "length (snd (for_each body xs)) = length xs"
  by (induction xs) (auto split: prod.splits option.splits)

lemma compute_budgets_finalized:
  "finalized a \<Longrightarrow> \<exists>e. compute_budgets lib a = Some (Inl e, a)"
  using finalize_cases [of a]
  by (cases "accountant_class a")
     (auto simp add: compute_budgets_def Naive_compute_budgets_def PLD_compute_budgets_def
        finalize_def split: sum.splits)

lemma compute_budgets_result:
  assumes "compute_budgets lib a = Some (r, a')"
  shows "(a' = a \<and> (\<exists>e. r = Inl e))
       \<or> (\<not> finalized a \<and> finalized a' \<and> length (mechanisms a') = length (mechanisms a))"
proof -
  consider (ok) "finalize a = (Inr (), a\<lparr>finalized := True\<rparr>)" "\<not> finalized a"
    | (err) e where "finalize a = (Inl e, a)"
    using finalize_cases [of a] by (auto simp add: finalize_def split: sum.splits if_splits)
  then show ?thesis
  proof cases
    case ok
    have len: "\<And>body ms. length (snd (for_each body ms)) = length ms"
      by (rule length_for_each)
    show ?thesis
    proof (cases "accountant_class a")
      case NaiveBudgetAccountant
      then show ?thesis using assms ok
        by (auto simp add: compute_budgets_def Naive_compute_budgets_def
            split: if_splits prod.splits option.splits
            dest: arg_cong [where f = "\<lambda>p. length (snd p)"] simp: length_for_each)
    next
      case PLDBudgetAccountant
      then show ?thesis using assms ok
        by (auto simp add: compute_budgets_def PLD_compute_budgets_def Let_def
            split: if_splits prod.splits option.splits sum.splits
            dest: arg_cong [where f = "\<lambda>p. length (snd p)"] simp: length_for_each)
    qed
  next
    case err
    then show ?thesis using assms
      by (cases "accountant_class a")
         (auto simp add: compute_budgets_def Naive_compute_budgets_def PLD_compute_budgets_def)
  qed
qed

lemma step_finalized:
  "step lib a c a' \<Longrightarrow> finalized a \<Longrightarrow> finalized a'"
proof (induction rule: step.induct)
  case (step_request a t sens w c noise_std)
  then show ?case using request_budget_frame [of a t sens w c noise_std] by simp
next
  case (step_scope a w aggregation_scope)
  then show ?case using scope_frame [of a w aggregation_scope] by simp
next
  case (step_enter sid a)
  then show ?case using enter_scope_frame [of a sid] by (simp add: BudgetAccountantScope_enter_def)
next
  case (step_exit sid a)
  then show ?case using BudgetAccountantScope_exit_frame [of a sid] by simp
next
  case (step_compute a r a')
  then show ?case using compute_budgets_result [of lib a r a'] by auto
qed

lemma steps_finalized:
  "steps lib a cs a' \<Longrightarrow> finalized a \<Longrightarrow> finalized a'"
  by (induction rule: steps.induct) (auto dest: step_finalized)

text \<open>
  Claim C8. For every budget accountant (Naive or PLD), once \<open>compute_budgets\<close> has
  returned, the accountant stays finalized through every later sequence of calls: after
  it, every \<open>request_budget\<close> fails (with "request\_budget() is called after
  compute\_budgets()") and every \<open>compute_budgets\<close> fails, and neither changes the
  accountant.
\<close>

theorem finalized_irreversible:
  assumes "compute_budgets lib a = Some (Inr (), a1)" and "steps lib a1 cs a2"
  shows "finalized a2
       \<and> (\<forall>t sens w c n. request_budget a2 t sens w c n = (Inl RequestAfterCompute, a2))
       \<and> (\<exists>e. compute_budgets lib a2 = Some (Inl e, a2))"
proof -
  have "finalized a1"
    using compute_budgets_result [OF assms(1)] by auto
  then have "finalized a2"
    using assms(2) by (rule steps_finalized [rotated])
  then show ?thesis
    using request_budget_finalized compute_budgets_finalized by simp
qed

text \<open>A Naive accountant with one mechanism: \<open>compute_budgets\<close>, then \<open>scope(1)\<close>, then
  \<open>request_budget\<close>.\<close>

theorem finalized_irreversible_witness:
  "fst (Naive_compute_budgets counted_laplace_state) = Inr ()
   \<and> finalized (snd (scope (snd (Naive_compute_budgets counted_laplace_state)) 1 False))
   \<and> fst (request_budget (snd (scope (snd (Naive_compute_budgets counted_laplace_state)) 1 False))
            LAPLACE 1 1 1 None) = Inl RequestAfterCompute"
proof -
  let ?a1 = "snd (Naive_compute_budgets counted_laplace_state)"
  let ?a2 = "snd (scope ?a1 1 False)"
  have ok: "fst (Naive_compute_budgets counted_laplace_state) = Inr ()"
    by (simp add: counted_laplace_state_eq naive_compute_defs)
  then have "Naive_compute_budgets counted_laplace_state = (Inr (), ?a1)"
    by (metis prod.collapse)
  then have run: "compute_budgets toy_pldlib counted_laplace_state = Some (Inr (), ?a1)"
    by (simp add: compute_budgets_def counted_laplace_state_eq)
  have calls: "steps toy_pldlib ?a1 [Scope 1 False] ?a2"
    by (rule steps_Cons [OF step_scope steps_Nil])
  show ?thesis
    using finalized_irreversible [OF run calls] ok by simp
qed

subsection \<open>Lazy fields of MechanismSpec\<close>

lemma fresh_accountant_mechanisms:
  "fresh_accountant a \<Longrightarrow> mechanisms a = [] \<and> \<not> finalized a"
  by (auto simp add: fresh_accountant_def NaiveBudgetAccountant_init_def
      PLDBudgetAccountant_init_def new_accountant_def split: sum.splits)

lemma unset_new_mechanism: "unset (mechanism_spec (new_mechanism t sens w c))"
  by (simp add: unset_def new_mechanism_def)

lemma step_specs:
  assumes "step lib a cl a'"
  shows "(cl \<noteq> ComputeBudgets \<longrightarrow>
            finalized a' = finalized a
            \<and> (map mechanism_spec (mechanisms a') = map mechanism_spec (mechanisms a)
               \<or> (\<exists>sp. unset sp
                     \<and> map mechanism_spec (mechanisms a') = map mechanism_spec (mechanisms a) @ [sp])))
       \<and> (cl = ComputeBudgets \<longrightarrow>
            a' = a \<or> (\<not> finalized a \<and> finalized a'
                       \<and> length (mechanisms a') = length (mechanisms a)))"
  using assms
proof (induction rule: step.induct)
  case (step_request a t sens w c noise_std)
  then show ?case
    using request_budget_frame [of a t sens w c noise_std] unset_new_mechanism by auto
next
  case (step_scope a w aggregation_scope)
  then show ?case using scope_frame [of a w aggregation_scope] by simp
next
  case (step_enter sid a)
  then show ?case using enter_scope_frame [of a sid] by (simp add: BudgetAccountantScope_enter_def)
next
  case (step_exit sid a)
  then show ?case using BudgetAccountantScope_exit_frame [of a sid] by simp
next
  case (step_compute a r a')
  then show ?case using compute_budgets_result [of lib a r a'] by auto
qed

lemma reachable_unset:
  "reachable lib a \<Longrightarrow> \<not> finalized a \<Longrightarrow> \<forall>sp\<in>set (map mechanism_spec (mechanisms a)). unset sp"
proof (induction rule: reachable.induct)
  case (reachable_init a)
  then show ?case using fresh_accountant_mechanisms [of a] by simp
next
  case (reachable_step a c a')
  show ?case
  proof (cases "c = ComputeBudgets")
    case True
    then have "a' = a" using step_specs [OF reachable_step.hyps(2)] reachable_step.prems by auto
    then show ?thesis using reachable_step by simp
  next
    case False
    then have f: "finalized a' = finalized a"
      and m: "map mechanism_spec (mechanisms a') = map mechanism_spec (mechanisms a)
               \<or> (\<exists>sp. unset sp
                     \<and> map mechanism_spec (mechanisms a') = map mechanism_spec (mechanisms a) @ [sp])"
      using step_specs [OF reachable_step.hyps(2)] by simp_all
    have ih: "\<forall>sp\<in>set (map mechanism_spec (mechanisms a)). unset sp"
      using reachable_step.IH reachable_step.prems f by simp
    from m show ?thesis
    proof
      assume "map mechanism_spec (mechanisms a') = map mechanism_spec (mechanisms a)"
      then show ?thesis using ih by simp
    next
      assume "\<exists>sp. unset sp
                \<and> map mechanism_spec (mechanisms a') = map mechanism_spec (mechanisms a) @ [sp]"
      then obtain sp where "unset sp"
        "map mechanism_spec (mechanisms a') = map mechanism_spec (mechanisms a) @ [sp]" by blast
      then show ?thesis using ih by auto
    qed
  qed
qed

lemma step_spec_kept:
  assumes st: "step lib a cl a'"
    and inv: "finalized a \<or> (\<forall>sp\<in>set (map mechanism_spec (mechanisms a)). unset sp)"
    and i: "i < length (mechanisms a)"
  shows "i < length (mechanisms a')
       \<and> (mechanism_spec (mechanisms a' ! i) \<noteq> mechanism_spec (mechanisms a ! i) \<longrightarrow>
            cl = ComputeBudgets \<and> unset (mechanism_spec (mechanisms a ! i)))"
proof (cases "cl = ComputeBudgets")
  case True
  then consider "a' = a"
    | "\<not> finalized a" "length (mechanisms a') = length (mechanisms a)"
    using step_specs [OF st] by auto
  then show ?thesis
  proof cases
    case 1
    then show ?thesis using i by simp
  next
    case 2
    then have "unset (mechanism_spec (mechanisms a ! i))"
      using inv i by simp
    then show ?thesis using 2 i True by simp
  qed
next
  case False
  then have m: "map mechanism_spec (mechanisms a') = map mechanism_spec (mechanisms a)
               \<or> (\<exists>sp. map mechanism_spec (mechanisms a') = map mechanism_spec (mechanisms a) @ [sp])"
    using step_specs [OF st] by auto
  then have len: "i < length (mechanisms a')"
    using i by (auto dest: arg_cong [where f = length])
  have "map mechanism_spec (mechanisms a') ! i = map mechanism_spec (mechanisms a) ! i"
    using m i by (auto simp add: nth_append)
  then have "mechanism_spec (mechanisms a' ! i) = mechanism_spec (mechanisms a ! i)"
    using i len by simp
  then show ?thesis using len by simp
qed

text \<open>
  Claim C9. Reading \<open>noise_standard_deviation\<close>, \<open>eps\<close> or \<open>delta\<close> of a \<open>MechanismSpec\<close>
  whose field has not been written fails with the "not calculated yet" error. The
  \<open>MechanismSpec\<close> that \<open>request_budget\<close> returns is new in the registry and has the three
  fields unset. In every accountant that calls can reach, a call changes a registered
  \<open>MechanismSpec\<close> only if the call is \<open>compute_budgets\<close> and the three fields were all
  unset before it: a field is written at most once, by \<open>compute_budgets\<close>, and never
  changes afterwards.
\<close>

theorem mechanism_spec_fields_written_once:
  "(u_noise_standard_deviation sp = None \<longrightarrow> noise_standard_deviation sp = Inl NoiseNotCalculated)
   \<and> (u_eps sp = None \<longrightarrow> eps sp = Inl BudgetNotCalculated)
   \<and> (u_delta sp = None \<longrightarrow> delta sp = Inl BudgetNotCalculated)
   \<and> (request_budget a0 t sens w c n = (Inr h, a1) \<longrightarrow>
         h = length (mechanisms a0) \<and> length (mechanisms a1) = Suc h
         \<and> unset (mechanism_spec (mechanisms a1 ! h)))
   \<and> (reachable lib a \<and> step lib a cl a' \<longrightarrow>
         (\<forall>i<length (mechanisms a).
            i < length (mechanisms a')
            \<and> (mechanism_spec (mechanisms a' ! i) \<noteq> mechanism_spec (mechanisms a ! i) \<longrightarrow>
                 cl = ComputeBudgets \<and> unset (mechanism_spec (mechanisms a ! i)))))"
proof -
  have getters:
    "u_noise_standard_deviation sp = None \<longrightarrow> noise_standard_deviation sp = Inl NoiseNotCalculated"
    "u_eps sp = None \<longrightarrow> eps sp = Inl BudgetNotCalculated"
    "u_delta sp = None \<longrightarrow> delta sp = Inl BudgetNotCalculated"
    by (simp_all add: noise_standard_deviation_def eps_def delta_def)
  have request: "h = length (mechanisms a0) \<and> length (mechanisms a1) = Suc h
                 \<and> unset (mechanism_spec (mechanisms a1 ! h))"
    if r: "request_budget a0 t sens w c n = (Inr h, a1)"
  proof -
    obtain c' where h: "h = length (mechanisms a0)"
      and a1: "a1 = snd (register_mechanism a0 (new_mechanism t sens w c'))"
      using r request_budget_cases [of a0 t sens w c n] by auto
    then have ms: "mechanisms a1 = mechanisms a0 @ [new_mechanism t sens w c']"
      using register_mechanism_frame by simp
    show ?thesis using ms h unset_new_mechanism by simp
  qed
  have kept: "\<forall>i<length (mechanisms a).
            i < length (mechanisms a')
            \<and> (mechanism_spec (mechanisms a' ! i) \<noteq> mechanism_spec (mechanisms a ! i) \<longrightarrow>
                 cl = ComputeBudgets \<and> unset (mechanism_spec (mechanisms a ! i)))"
    if ra: "reachable lib a \<and> step lib a cl a'"
  proof (intro allI impI)
    fix i
    assume i: "i < length (mechanisms a)"
    have inv: "finalized a \<or> (\<forall>sp\<in>set (map mechanism_spec (mechanisms a)). unset sp)"
      using reachable_unset [of lib a] ra by blast
    have st: "step lib a cl a'" using ra by simp
    show "i < length (mechanisms a')
          \<and> (mechanism_spec (mechanisms a' ! i) \<noteq> mechanism_spec (mechanisms a ! i) \<longrightarrow>
               cl = ComputeBudgets \<and> unset (mechanism_spec (mechanisms a ! i)))"
      by (rule step_spec_kept [OF st inv i])
  qed
  show ?thesis
    using getters request kept by blast
qed

lemma counted_laplace_state_reachable: "reachable lib counted_laplace_state"
proof -
  let ?a0 = "new_accountant NaiveBudgetAccountant 1 0 0 None None"
  have "NaiveBudgetAccountant_init 1 0 None None = Inr ?a0"
    by (simp add: NaiveBudgetAccountant_init_def BudgetAccountant_init_def
        validate_epsilon_delta_def)
  then have "fresh_accountant ?a0"
    unfolding fresh_accountant_def by blast
  then have "reachable lib (snd (request_budget ?a0 LAPLACE 1 1 2 None))"
    by (intro reachable_step [OF reachable_init step_request])
  moreover have "snd (request_budget ?a0 LAPLACE 1 1 2 None) = counted_laplace_state"
    by (simp add: request_budget_def counted_laplace_state_def new_accountant_def)
  ultimately show ?thesis by simp
qed

text \<open>A Naive accountant with one registered mechanism, before and after
  \<open>compute_budgets\<close>.\<close>

theorem mechanism_spec_fields_written_once_witness:
  "reachable toy_pldlib counted_laplace_state
   \<and> step toy_pldlib counted_laplace_state ComputeBudgets (snd (Naive_compute_budgets counted_laplace_state))
   \<and> eps (mechanism_spec (mechanisms counted_laplace_state ! 0)) = Inl BudgetNotCalculated
   \<and> eps (mechanism_spec (mechanisms (snd (Naive_compute_budgets counted_laplace_state)) ! 0)) = Inr (1 / 2)
   \<and> unset (mechanism_spec (mechanisms counted_laplace_state ! 0))"
proof -
  let ?a' = "snd (Naive_compute_budgets counted_laplace_state)"
  have r: "reachable toy_pldlib counted_laplace_state" by (rule counted_laplace_state_reachable)
  have "compute_budgets toy_pldlib counted_laplace_state
          = Some (fst (Naive_compute_budgets counted_laplace_state), ?a')"
    by (simp add: compute_budgets_def counted_laplace_state_eq)
  then have s: "step toy_pldlib counted_laplace_state ComputeBudgets ?a'"
    by (rule step_compute)
  have before: "u_eps (mechanism_spec (mechanisms counted_laplace_state ! 0)) = None"
    and i: "0 < length (mechanisms counted_laplace_state)"
    by (simp_all add: counted_laplace_state_eq)
  have after: "eps (mechanism_spec (mechanisms ?a' ! 0)) = Inr (1 / 2)"
    by (simp add: counted_laplace_state_eq naive_compute_defs eps_def)
  then have changed: "mechanism_spec (mechanisms ?a' ! 0)
                        \<noteq> mechanism_spec (mechanisms counted_laplace_state ! 0)"
    using before by (auto simp add: eps_def)
  note t = mechanism_spec_fields_written_once
    [of "mechanism_spec (mechanisms counted_laplace_state ! 0)" _ _ _ _ _ _ _ _
        toy_pldlib counted_laplace_state ComputeBudgets ?a']
  have "eps (mechanism_spec (mechanisms counted_laplace_state ! 0)) = Inl BudgetNotCalculated"
    using t before by blast
  moreover have "unset (mechanism_spec (mechanisms counted_laplace_state ! 0))"
    using t r s i changed by blast
  ultimately show ?thesis using r s after by simp
qed

subsection \<open>PLDBudgetAccountant: what compute_budgets writes\<close>

lemma for_each_success:
  "for_each body xs = (None, ys) \<Longrightarrow>
     length ys = length xs \<and> (\<forall>i<length xs. body (xs ! i) = (None, ys ! i))"
proof (induction xs arbitrary: ys)
  case Nil
  then show ?case by simp
next
  case (Cons x xs)
  from Cons.prems obtain y zs where y: "body x = (None, y)"
    and zs: "for_each body xs = (None, zs)" and ys: "ys = y # zs"
    by (auto split: prod.splits option.splits)
  have "length zs = length xs \<and> (\<forall>i<length xs. body (xs ! i) = (None, zs ! i))"
    using Cons.IH [OF zs] .
  then show ?case using y ys by (auto simp add: nth_Cons split: nat.splits)
qed

lemma PLD_assign_cong:
  "total_epsilon b = total_epsilon a \<Longrightarrow> total_delta b = total_delta a \<Longrightarrow>
     PLD_assign b s = PLD_assign a s"
  by (rule ext) (simp add: PLD_assign_def Let_def split: sum.splits)

lemma PLD_assign_success:
  assumes "PLD_assign a s m = (None, m')"
  shows "weight m \<noteq> 0 \<and> sensitivity m' = sensitivity m \<and> weight m' = weight m
       \<and> mechanism_type (mechanism_spec m') = mechanism_type (mechanism_spec m)
       \<and> u_count (mechanism_spec m') = u_count (mechanism_spec m)
       \<and> u_noise_standard_deviation (mechanism_spec m') = Some (sensitivity m * s / weight m)
       \<and> (mechanism_type (mechanism_spec m) = GENERIC \<longrightarrow>
            u_eps (mechanism_spec m') = Some (sqrt 2 / (sensitivity m * s / weight m))
            \<and> u_delta (mechanism_spec m')
                = Some (sqrt 2 / (sensitivity m * s / weight m) / total_epsilon a * total_delta a))
       \<and> (mechanism_type (mechanism_spec m) \<noteq> GENERIC \<longrightarrow>
            u_eps (mechanism_spec m') = u_eps (mechanism_spec m)
            \<and> u_delta (mechanism_spec m') = u_delta (mechanism_spec m))"
  using assms
  by (auto simp add: PLD_assign_def py_div_def set_eps_delta_def Let_def
      split: if_splits)

lemma PLD_compute_budgets_success:
  assumes "PLD_compute_budgets lib a = Some (Inr (), a')" and "mechanisms a \<noteq> []"
  shows "\<exists>s ms. (if total_delta a = 0 then closed_form_noise_std a = Inr s
                 else find_minimum_noise_std (round_float lib)
                        (composed_epsilon lib (a\<lparr>finalized := True\<rparr>))
                        (total_epsilon a) = Some (Inr s))
              \<and> for_each (PLD_assign a s) (mechanisms a) = (None, ms)
              \<and> a' = a\<lparr>finalized := True, minimum_noise_std := Some s, mechanisms := ms\<rparr>
              \<and> \<not> finalized a"
proof -
  have cf: "closed_form_noise_std (a\<lparr>finalized := True\<rparr>) = closed_form_noise_std a"
    by (simp add: closed_form_noise_std_def)
  have pa: "\<And>s. PLD_assign (a\<lparr>finalized := True, minimum_noise_std := Some s\<rparr>) s = PLD_assign a s"
    by (rule PLD_assign_cong) simp_all
  consider (ok) "finalize a = (Inr (), a\<lparr>finalized := True\<rparr>)" "\<not> finalized a"
    | (err) e where "finalize a = (Inl e, a)"
    using finalize_cases [of a] by (auto simp add: finalize_def split: sum.splits if_splits)
  then show ?thesis
  proof cases
    case ok
    then show ?thesis using assms
      by (auto simp add: PLD_compute_budgets_def cf pa Let_def
          split: if_splits option.splits sum.splits prod.splits)
  next
    case err
    then show ?thesis using assms by (simp add: PLD_compute_budgets_def)
  qed
qed

lemma fold_add_weight:
  "fold (\<lambda>mechanism s. s + weight mechanism) ms s0 = s0 + (\<Sum>m\<leftarrow>ms. weight m)"
  by (induction ms arbitrary: s0) simp_all

lemma closed_form_noise_std_success:
  "closed_form_noise_std a = Inr s \<Longrightarrow>
     total_epsilon a \<noteq> 0 \<and> s = (\<Sum>m\<leftarrow>mechanisms a. weight m) / total_epsilon a * sqrt 2"
  by (auto simp add: closed_form_noise_std_def py_div_def fold_add_weight split: if_splits)

lemma PLD_compute_budgets_delta_zero:
  assumes "total_delta a = 0"
  shows "PLD_compute_budgets lib a = PLD_compute_budgets lib' a"
proof -
  consider (ok) "finalize a = (Inr (), a\<lparr>finalized := True\<rparr>)"
    | (err) e where "finalize a = (Inl e, a)"
    using finalize_cases [of a] by auto
  then show ?thesis
    using assms by cases (simp_all add: PLD_compute_budgets_def)
qed

lemmas pld_compute_defs =
  PLD_compute_budgets_def finalize_def check_number_aggregation_scopes_def truthy_int_def
  closed_form_noise_std_def PLD_assign_def py_div_def set_eps_delta_def Let_def

lemma pld_laplace_state_eq:
  "pld_laplace_state =
     \<lparr>accountant_class = PLDBudgetAccountant, scopes_stack = [],
      mechanisms = [\<lparr>sensitivity = 1, weight = 1,
                     mechanism_spec = \<lparr>mechanism_type = LAPLACE,
                       u_noise_standard_deviation = None, u_eps = None, u_delta = None,
                       u_count = 1\<rparr>\<rparr>],
      finalized = False,
      n_aggregations = None, aggregation_weights = None, next_aggregation_index = 0,
      inside_aggregation_scope = False, total_epsilon = 2, total_delta = 0,
      minimum_noise_std = None, pld_discretization = 1 / 10000, scope_heap = []\<rparr>"
  by (simp add: pld_laplace_state_def build_defs)

lemma pld_generic_state_eq:
  "pld_generic_state =
     \<lparr>accountant_class = PLDBudgetAccountant, scopes_stack = [],
      mechanisms = [\<lparr>sensitivity = 1, weight = 1,
                     mechanism_spec = \<lparr>mechanism_type = LAPLACE,
                       u_noise_standard_deviation = None, u_eps = None, u_delta = None,
                       u_count = 1\<rparr>\<rparr>,
                    \<lparr>sensitivity = 1, weight = 1,
                     mechanism_spec = \<lparr>mechanism_type = GENERIC,
                       u_noise_standard_deviation = None, u_eps = None, u_delta = None,
                       u_count = 1\<rparr>\<rparr>],
      finalized = False,
      n_aggregations = None, aggregation_weights = None, next_aggregation_index = 0,
      inside_aggregation_scope = False, total_epsilon = 2, total_delta = 0,
      minimum_noise_std = None, pld_discretization = 1 / 10000, scope_heap = []\<rparr>"
  by (simp add: pld_generic_state_def build_defs)

lemma pld_laplace_state_run:
  "\<exists>a'. PLD_compute_budgets lib pld_laplace_state = Some (Inr (), a')
        \<and> minimum_noise_std a' = Some (sqrt 2 / 2)"
  by (simp add: pld_laplace_state_eq pld_compute_defs)

lemma pld_generic_state_run:
  "\<exists>a'. PLD_compute_budgets lib pld_generic_state = Some (Inr (), a')
        \<and> minimum_noise_std a' = Some (sqrt 2)"
  by (simp add: pld_generic_state_eq pld_compute_defs)

text \<open>
  Claim C5. When \<open>compute_budgets\<close> of a PLDBudgetAccountant with \<open>total_delta = 0\<close>
  returns with at least one mechanism, \<open>minimum_noise_std\<close> is
  \<open>(sum of the weights) / total_epsilon * sqrt 2\<close>, and the library is not consulted: the
  call gives the same result with any other library. For one Laplace mechanism of
  sensitivity 1 and weight 1 with the budget \<open>(2, 0)\<close>, the call returns and
  \<open>minimum_noise_std = sqrt 2 / 2\<close>.
\<close>

theorem PLD_closed_form:
  "(PLD_compute_budgets lib a = Some (Inr (), a') \<and> mechanisms a \<noteq> [] \<and> total_delta a = 0 \<longrightarrow>
      minimum_noise_std a' = Some ((\<Sum>m\<leftarrow>mechanisms a. weight m) / total_epsilon a * sqrt 2)
      \<and> PLD_compute_budgets lib' a = Some (Inr (), a'))
   \<and> (\<exists>a''. PLD_compute_budgets lib pld_laplace_state = Some (Inr (), a'')
             \<and> minimum_noise_std a'' = Some (sqrt 2 / 2))"
proof -
  have general: "minimum_noise_std a' = Some ((\<Sum>m\<leftarrow>mechanisms a. weight m) / total_epsilon a * sqrt 2)
      \<and> PLD_compute_budgets lib' a = Some (Inr (), a')"
    if run: "PLD_compute_budgets lib a = Some (Inr (), a')" and ne: "mechanisms a \<noteq> []"
      and d0: "total_delta a = 0"
  proof -
    obtain s ms where s: "closed_form_noise_std a = Inr s"
      and a': "a' = a\<lparr>finalized := True, minimum_noise_std := Some s, mechanisms := ms\<rparr>"
      using PLD_compute_budgets_success [OF run ne] d0 by auto
    have "s = (\<Sum>m\<leftarrow>mechanisms a. weight m) / total_epsilon a * sqrt 2"
      using closed_form_noise_std_success [OF s] by simp
    moreover have "PLD_compute_budgets lib' a = Some (Inr (), a')"
      using PLD_compute_budgets_delta_zero [OF d0, of lib' lib] run by simp
    ultimately show ?thesis using a' by simp
  qed
  show ?thesis
    using general pld_laplace_state_run [of lib] by blast
qed

text \<open>The Laplace mechanism and the generic one with the budget \<open>(2, 0)\<close>: the weights sum
  to 2 and \<open>minimum_noise_std = 2 / 2 * sqrt 2\<close>.\<close>

theorem PLD_closed_form_witness:
  "\<exists>a'. PLD_compute_budgets toy_pldlib pld_generic_state = Some (Inr (), a')
        \<and> mechanisms pld_generic_state \<noteq> [] \<and> total_delta pld_generic_state = 0
        \<and> minimum_noise_std a' = Some (sqrt 2)"
proof -
  obtain a' where run: "PLD_compute_budgets toy_pldlib pld_generic_state = Some (Inr (), a')"
    using pld_generic_state_run by blast
  have st: "mechanisms pld_generic_state \<noteq> []" "total_delta pld_generic_state = 0"
    "(\<Sum>m\<leftarrow>mechanisms pld_generic_state. weight m) / total_epsilon pld_generic_state = 1"
    by (simp_all add: pld_generic_state_eq)
  have "minimum_noise_std a' = Some (sqrt 2)"
    using PLD_closed_form [of toy_pldlib pld_generic_state a' toy_pldlib] run st by simp
  then show ?thesis using run st by blast
qed

text \<open>
  Claim C6. When \<open>compute_budgets\<close> of a PLDBudgetAccountant returns with at least one
  mechanism, \<open>minimum_noise_std\<close> holds a value \<open>s\<close>, every mechanism \<open>m\<close> has
  \<open>noise_standard_deviation = sensitivity(m) * s / weight(m)\<close>, every GENERIC
  mechanism has \<open>eps = sqrt 2 / noise_standard_deviation(m)\<close> and
  \<open>delta = eps / total_epsilon * total_delta\<close>, and the \<open>_eps\<close> and \<open>_delta\<close> of every
  other mechanism are as they were before the call.
\<close>

theorem PLD_compute_budgets_noise:
  assumes "PLD_compute_budgets lib a = Some (Inr (), a')" and "mechanisms a \<noteq> []"
  shows "\<exists>s. minimum_noise_std a' = Some s
            \<and> length (mechanisms a') = length (mechanisms a)
            \<and> (\<forall>i<length (mechanisms a).
                  noise_standard_deviation (mechanism_spec (mechanisms a' ! i))
                    = Inr (sensitivity (mechanisms a ! i) * s / weight (mechanisms a ! i))
                  \<and> (mechanism_type (mechanism_spec (mechanisms a ! i)) = GENERIC \<longrightarrow>
                       eps (mechanism_spec (mechanisms a' ! i))
                         = Inr (sqrt 2 / (sensitivity (mechanisms a ! i) * s
                                          / weight (mechanisms a ! i)))
                       \<and> delta (mechanism_spec (mechanisms a' ! i))
                           = Inr (sqrt 2 / (sensitivity (mechanisms a ! i) * s
                                            / weight (mechanisms a ! i))
                                  / total_epsilon a * total_delta a))
                  \<and> (mechanism_type (mechanism_spec (mechanisms a ! i)) \<noteq> GENERIC \<longrightarrow>
                       u_eps (mechanism_spec (mechanisms a' ! i))
                         = u_eps (mechanism_spec (mechanisms a ! i))
                       \<and> u_delta (mechanism_spec (mechanisms a' ! i))
                           = u_delta (mechanism_spec (mechanisms a ! i))))"
proof -
  obtain s ms where fe: "for_each (PLD_assign a s) (mechanisms a) = (None, ms)"
    and a': "a' = a\<lparr>finalized := True, minimum_noise_std := Some s, mechanisms := ms\<rparr>"
    using PLD_compute_budgets_success [OF assms] by auto
  have len: "length ms = length (mechanisms a)"
    and each: "\<And>i. i < length (mechanisms a) \<Longrightarrow>
                 PLD_assign a s (mechanisms a ! i) = (None, ms ! i)"
    using for_each_success [OF fe] by simp_all
  have "\<forall>i<length (mechanisms a).
          noise_standard_deviation (mechanism_spec (ms ! i))
            = Inr (sensitivity (mechanisms a ! i) * s / weight (mechanisms a ! i))
          \<and> (mechanism_type (mechanism_spec (mechanisms a ! i)) = GENERIC \<longrightarrow>
               eps (mechanism_spec (ms ! i))
                 = Inr (sqrt 2 / (sensitivity (mechanisms a ! i) * s / weight (mechanisms a ! i)))
               \<and> delta (mechanism_spec (ms ! i))
                   = Inr (sqrt 2 / (sensitivity (mechanisms a ! i) * s / weight (mechanisms a ! i))
                          / total_epsilon a * total_delta a))
          \<and> (mechanism_type (mechanism_spec (mechanisms a ! i)) \<noteq> GENERIC \<longrightarrow>
               u_eps (mechanism_spec (ms ! i)) = u_eps (mechanism_spec (mechanisms a ! i))
               \<and> u_delta (mechanism_spec (ms ! i)) = u_delta (mechanism_spec (mechanisms a ! i)))"
  proof (intro allI impI)
    fix i
    assume "i < length (mechanisms a)"
    then have "PLD_assign a s (mechanisms a ! i) = (None, ms ! i)" by (rule each)
    from PLD_assign_success [OF this]
    show "noise_standard_deviation (mechanism_spec (ms ! i))
            = Inr (sensitivity (mechanisms a ! i) * s / weight (mechanisms a ! i))
          \<and> (mechanism_type (mechanism_spec (mechanisms a ! i)) = GENERIC \<longrightarrow>
               eps (mechanism_spec (ms ! i))
                 = Inr (sqrt 2 / (sensitivity (mechanisms a ! i) * s / weight (mechanisms a ! i)))
               \<and> delta (mechanism_spec (ms ! i))
                   = Inr (sqrt 2 / (sensitivity (mechanisms a ! i) * s / weight (mechanisms a ! i))
                          / total_epsilon a * total_delta a))
          \<and> (mechanism_type (mechanism_spec (mechanisms a ! i)) \<noteq> GENERIC \<longrightarrow>
               u_eps (mechanism_spec (ms ! i)) = u_eps (mechanism_spec (mechanisms a ! i))
               \<and> u_delta (mechanism_spec (ms ! i)) = u_delta (mechanism_spec (mechanisms a ! i)))"
      by (simp add: noise_standard_deviation_def eps_def delta_def)
  qed
  then show ?thesis using a' len by simp
qed

text \<open>The Laplace mechanism and the generic one with the budget \<open>(2, 0)\<close>: both get the
  noise \<open>sqrt 2\<close>, the generic one gets \<open>(eps, delta) = (1, 0)\<close>, and \<open>_eps\<close> of the
  Laplace mechanism is still \<open>None\<close>.\<close>

theorem PLD_compute_budgets_noise_witness:
  "\<exists>a'. PLD_compute_budgets toy_pldlib pld_generic_state = Some (Inr (), a')
        \<and> noise_standard_deviation (mechanism_spec (mechanisms a' ! 0)) = Inr (sqrt 2)
        \<and> noise_standard_deviation (mechanism_spec (mechanisms a' ! 1)) = Inr (sqrt 2)
        \<and> eps (mechanism_spec (mechanisms a' ! 1)) = Inr 1
        \<and> delta (mechanism_spec (mechanisms a' ! 1)) = Inr 0
        \<and> u_eps (mechanism_spec (mechanisms a' ! 0)) = None"
proof -
  obtain a' where run: "PLD_compute_budgets toy_pldlib pld_generic_state = Some (Inr (), a')"
    and sd: "minimum_noise_std a' = Some (sqrt 2)"
    using pld_generic_state_run by blast
  have ne: "mechanisms pld_generic_state \<noteq> []"
    by (simp add: pld_generic_state_eq)
  obtain s where s: "minimum_noise_std a' = Some s"
    and each: "\<forall>i<length (mechanisms pld_generic_state).
                  noise_standard_deviation (mechanism_spec (mechanisms a' ! i))
                    = Inr (sensitivity (mechanisms pld_generic_state ! i) * s
                           / weight (mechanisms pld_generic_state ! i))
                  \<and> (mechanism_type (mechanism_spec (mechanisms pld_generic_state ! i)) = GENERIC \<longrightarrow>
                       eps (mechanism_spec (mechanisms a' ! i))
                         = Inr (sqrt 2 / (sensitivity (mechanisms pld_generic_state ! i) * s
                                          / weight (mechanisms pld_generic_state ! i)))
                       \<and> delta (mechanism_spec (mechanisms a' ! i))
                           = Inr (sqrt 2 / (sensitivity (mechanisms pld_generic_state ! i) * s
                                            / weight (mechanisms pld_generic_state ! i))
                                  / total_epsilon pld_generic_state * total_delta pld_generic_state))
                  \<and> (mechanism_type (mechanism_spec (mechanisms pld_generic_state ! i)) \<noteq> GENERIC \<longrightarrow>
                       u_eps (mechanism_spec (mechanisms a' ! i))
                         = u_eps (mechanism_spec (mechanisms pld_generic_state ! i))
                       \<and> u_delta (mechanism_spec (mechanisms a' ! i))
                           = u_delta (mechanism_spec (mechanisms pld_generic_state ! i)))"
    using PLD_compute_budgets_noise [OF run ne] by blast
  have s2: "s = sqrt 2" using s sd by simp
  have m0: "noise_standard_deviation (mechanism_spec (mechanisms a' ! 0)) = Inr (sqrt 2)
            \<and> u_eps (mechanism_spec (mechanisms a' ! 0)) = None"
    using each [rule_format, of 0] s2 by (simp add: pld_generic_state_eq)
  have m1: "noise_standard_deviation (mechanism_spec (mechanisms a' ! 1)) = Inr (sqrt 2)
            \<and> eps (mechanism_spec (mechanisms a' ! 1)) = Inr 1
            \<and> delta (mechanism_spec (mechanisms a' ! 1)) = Inr 0"
    using each [rule_format, of 1] s2 by (simp add: pld_generic_state_eq)
  show ?thesis using run m0 m1 by blast
qed

text \<open>
  Claim C10. In every PLDBudgetAccountant that calls can reach, when \<open>compute_budgets\<close>
  returns with at least one registered mechanism: every mechanism has a readable
  \<open>noise_standard_deviation\<close>; for every LAPLACE or GAUSSIAN mechanism, reading \<open>eps\<close> or
  \<open>delta\<close> still raises "Privacy budget is not calculated yet"; for every GENERIC
  mechanism, \<open>eps\<close> and \<open>delta\<close> are readable.
\<close>

theorem PLD_eps_delta_only_generic:
  assumes "reachable lib a"
    and "PLD_compute_budgets lib a = Some (Inr (), a')"
    and "mechanisms a \<noteq> []"
  shows "length (mechanisms a') = length (mechanisms a)
       \<and> (\<forall>i<length (mechanisms a').
             (\<exists>v. noise_standard_deviation (mechanism_spec (mechanisms a' ! i)) = Inr v)
             \<and> (mechanism_type (mechanism_spec (mechanisms a' ! i)) \<noteq> GENERIC \<longrightarrow>
                  eps (mechanism_spec (mechanisms a' ! i)) = Inl BudgetNotCalculated
                  \<and> delta (mechanism_spec (mechanisms a' ! i)) = Inl BudgetNotCalculated)
             \<and> (mechanism_type (mechanism_spec (mechanisms a' ! i)) = GENERIC \<longrightarrow>
                  (\<exists>e. eps (mechanism_spec (mechanisms a' ! i)) = Inr e)
                  \<and> (\<exists>d. delta (mechanism_spec (mechanisms a' ! i)) = Inr d)))"
proof -
  obtain s ms where fe: "for_each (PLD_assign a s) (mechanisms a) = (None, ms)"
    and a': "a' = a\<lparr>finalized := True, minimum_noise_std := Some s, mechanisms := ms\<rparr>"
    and nf: "\<not> finalized a"
    using PLD_compute_budgets_success [OF assms(2,3)] by auto
  have len: "length ms = length (mechanisms a)"
    and each: "\<And>i. i < length (mechanisms a) \<Longrightarrow>
                 PLD_assign a s (mechanisms a ! i) = (None, ms ! i)"
    using for_each_success [OF fe] by simp_all
  have before: "\<And>i. i < length (mechanisms a) \<Longrightarrow> unset (mechanism_spec (mechanisms a ! i))"
    using reachable_unset [OF assms(1) nf] by simp
  have "\<forall>i<length ms.
          (\<exists>v. noise_standard_deviation (mechanism_spec (ms ! i)) = Inr v)
          \<and> (mechanism_type (mechanism_spec (ms ! i)) \<noteq> GENERIC \<longrightarrow>
               eps (mechanism_spec (ms ! i)) = Inl BudgetNotCalculated
               \<and> delta (mechanism_spec (ms ! i)) = Inl BudgetNotCalculated)
          \<and> (mechanism_type (mechanism_spec (ms ! i)) = GENERIC \<longrightarrow>
               (\<exists>e. eps (mechanism_spec (ms ! i)) = Inr e)
               \<and> (\<exists>d. delta (mechanism_spec (ms ! i)) = Inr d))"
  proof (intro allI impI)
    fix i
    assume "i < length ms"
    then have i: "i < length (mechanisms a)" using len by simp
    have u: "u_eps (mechanism_spec (mechanisms a ! i)) = None"
      "u_delta (mechanism_spec (mechanisms a ! i)) = None"
      using before [OF i] by (simp_all add: unset_def)
    from PLD_assign_success [OF each [OF i]] u
    show "(\<exists>v. noise_standard_deviation (mechanism_spec (ms ! i)) = Inr v)
          \<and> (mechanism_type (mechanism_spec (ms ! i)) \<noteq> GENERIC \<longrightarrow>
               eps (mechanism_spec (ms ! i)) = Inl BudgetNotCalculated
               \<and> delta (mechanism_spec (ms ! i)) = Inl BudgetNotCalculated)
          \<and> (mechanism_type (mechanism_spec (ms ! i)) = GENERIC \<longrightarrow>
               (\<exists>e. eps (mechanism_spec (ms ! i)) = Inr e)
               \<and> (\<exists>d. delta (mechanism_spec (ms ! i)) = Inr d))"
      by (simp add: noise_standard_deviation_def eps_def delta_def)
  qed
  then show ?thesis using a' len by simp
qed

lemma pld_generic_state_reachable: "reachable lib pld_generic_state"
proof -
  let ?a0 = "new_accountant PLDBudgetAccountant 2 0 (1 / 10000) None None"
  let ?a1 = "snd (request_budget ?a0 LAPLACE 1 1 1 None)"
  have "PLDBudgetAccountant_init 2 0 (1 / 10000) None None = Inr ?a0"
    by (simp add: PLDBudgetAccountant_init_def BudgetAccountant_init_def
        validate_epsilon_delta_def)
  then have "fresh_accountant ?a0"
    unfolding fresh_accountant_def by blast
  then have "reachable lib (snd (request_budget ?a1 GENERIC 1 1 1 None))"
    by (intro reachable_step [OF reachable_step [OF reachable_init step_request] step_request])
  moreover have "snd (request_budget ?a1 GENERIC 1 1 1 None) = pld_generic_state"
    by (simp add: request_budget_def pld_generic_state_def new_accountant_def
        PLD_request_budget_def register_mechanism_def Let_def)
  ultimately show ?thesis by simp
qed

text \<open>After \<open>compute_budgets\<close> on the Laplace mechanism and the generic one, \<open>eps\<close> of
  the first still raises and \<open>eps\<close> of the second is readable.\<close>

theorem PLD_eps_delta_only_generic_witness:
  "reachable toy_pldlib pld_generic_state
   \<and> (\<exists>a'. PLD_compute_budgets toy_pldlib pld_generic_state = Some (Inr (), a')
        \<and> eps (mechanism_spec (mechanisms a' ! 0)) = Inl BudgetNotCalculated
        \<and> delta (mechanism_spec (mechanisms a' ! 0)) = Inl BudgetNotCalculated
        \<and> (\<exists>e. eps (mechanism_spec (mechanisms a' ! 1)) = Inr e))"
proof -
  have r: "reachable toy_pldlib pld_generic_state" by (rule pld_generic_state_reachable)
  obtain a' where run: "PLD_compute_budgets toy_pldlib pld_generic_state = Some (Inr (), a')"
    using pld_generic_state_run by blast
  have ne: "mechanisms pld_generic_state \<noteq> []"
    by (simp add: pld_generic_state_eq)
  note t = PLD_eps_delta_only_generic [OF r run ne]
  have len: "length (mechanisms a') = 2"
    using t by (simp add: pld_generic_state_eq)
  have ty: "mechanism_type (mechanism_spec (mechanisms a' ! 0)) = LAPLACE"
    "mechanism_type (mechanism_spec (mechanisms a' ! 1)) = GENERIC"
    using run by (auto simp add: pld_generic_state_eq pld_compute_defs)
  have "eps (mechanism_spec (mechanisms a' ! 0)) = Inl BudgetNotCalculated
        \<and> delta (mechanism_spec (mechanisms a' ! 0)) = Inl BudgetNotCalculated"
    using t [THEN conjunct2, rule_format, of 0] len ty by simp
  moreover have "\<exists>e. eps (mechanism_spec (mechanisms a' ! 1)) = Inr e"
    using t [THEN conjunct2, rule_format, of 1] len ty by simp
  ultimately show ?thesis using r run by blast
qed

subsection \<open>The search for the minimum noise\<close>

text \<open>
  Whether the two loops end, and with what, depends on the rounding of the float
  arithmetic. The first three lemmas hold for every rounding; the others are about exact
  arithmetic only, and say nothing about a rounding that is not the identity.
\<close>

lemma max_noise_std_loop_never:
  assumes "max_noise_std_loop rnd f tot_eps m pe = Some y"
  shows "\<not> (tot_eps < pe \<and> (\<forall>s. \<exists>v. f s = Inr v \<and> tot_eps < v))"
proof (rule max_noise_std_loop.raw_induct
    [where P = "\<lambda>rnd f t m p y. \<not> (t < p \<and> (\<forall>s. \<exists>v. f s = Inr v \<and> t < v))", OF _ assms])
  fix loop :: "(real \<Rightarrow> real) \<Rightarrow> (real \<Rightarrow> error + real) \<Rightarrow> real \<Rightarrow> real \<Rightarrow> real
                 \<Rightarrow> (error + real) option"
    and rnd f t m p y
  assume ih: "\<And>rnd f t m p y. loop rnd f t m p = Some y
                \<Longrightarrow> \<not> (t < p \<and> (\<forall>s. \<exists>v. f s = Inr v \<and> t < v))"
    and body: "(if t < p
                then case f (rnd (m * 2)) of Inl e \<Rightarrow> Some (Inl e)
                     | Inr pld_epsilon' \<Rightarrow> loop rnd f t (rnd (m * 2)) pld_epsilon'
                else Some (Inr m)) = Some y"
  show "\<not> (t < p \<and> (\<forall>s. \<exists>v. f s = Inr v \<and> t < v))"
  proof
    assume h: "t < p \<and> (\<forall>s. \<exists>v. f s = Inr v \<and> t < v)"
    then obtain v where v: "f (rnd (m * 2)) = Inr v" "t < v" by blast
    then have "loop rnd f t (rnd (m * 2)) v = Some y"
      using body h by simp
    from ih [OF this] show False using h v by blast
  qed
qed

text \<open>With a composed epsilon that is above \<open>total_epsilon\<close> at every noise, the doubling
  of \<open>_calculate_max_noise_std\<close> never ends, whatever the rounding.\<close>

lemma find_minimum_noise_std_never:
  assumes "\<forall>s. \<exists>v. f s = Inr v \<and> tot_eps < v" and "tot_eps < rnd (tot_eps + 1)"
  shows "calculate_max_noise_std rnd f tot_eps = None
       \<and> find_minimum_noise_std rnd f tot_eps = None"
proof -
  have never: "max_noise_std_loop rnd f tot_eps 1 (rnd (tot_eps + 1)) \<noteq> Some y" for y
    using max_noise_std_loop_never [of rnd f tot_eps 1 "rnd (tot_eps + 1)" y] assms by blast
  have "max_noise_std_loop rnd f tot_eps 1 (rnd (tot_eps + 1)) = None"
  proof (cases "max_noise_std_loop rnd f tot_eps 1 (rnd (tot_eps + 1))")
    case None
    then show ?thesis .
  next
    case (Some y)
    then show ?thesis using never [of y] by simp
  qed
  then have "calculate_max_noise_std rnd f tot_eps = None"
    by (simp add: calculate_max_noise_std_def)
  then show ?thesis by (simp add: find_minimum_noise_std_def)
qed

text \<open>When \<open>total_epsilon + 1\<close> rounds to \<open>total_epsilon\<close>, the noise is never doubled and
  the bound is 1, whatever the composed epsilon.\<close>

lemma calculate_max_noise_std_no_doubling:
  "\<not> tot_eps < rnd (tot_eps + 1) \<Longrightarrow> calculate_max_noise_std rnd f tot_eps = Some (Inr 1)"
  unfolding calculate_max_noise_std_def
  by (subst max_noise_std_loop.simps) simp

lemma max_noise_std_loop_bracket:
  assumes "g (m * 2 ^ Suc k) \<le> tot_eps" and "tot_eps < pe"
  shows "\<exists>j. 1 \<le> j
            \<and> max_noise_std_loop (\<lambda>x. x) (\<lambda>s. Inr (g s)) tot_eps m pe = Some (Inr (m * 2 ^ j))
            \<and> g (m * 2 ^ j) \<le> tot_eps"
  using assms
proof (induction k arbitrary: m pe)
  case 0
  have "max_noise_std_loop (\<lambda>x. x) (\<lambda>s. Inr (g s)) tot_eps m pe
          = max_noise_std_loop (\<lambda>x. x) (\<lambda>s. Inr (g s)) tot_eps (m * 2) (g (m * 2))"
    using 0(2) by (subst max_noise_std_loop.simps) simp
  also have "\<dots> = Some (Inr (m * 2))"
    using 0(1) by (subst max_noise_std_loop.simps) simp
  finally show ?case using 0(1) by (intro exI [of _ 1]) simp
next
  case (Suc k)
  have unfold: "max_noise_std_loop (\<lambda>x. x) (\<lambda>s. Inr (g s)) tot_eps m pe
          = max_noise_std_loop (\<lambda>x. x) (\<lambda>s. Inr (g s)) tot_eps (m * 2) (g (m * 2))"
    using Suc.prems(2) by (subst max_noise_std_loop.simps) simp
  show ?case
  proof (cases "tot_eps < g (m * 2)")
    case True
    have "g (m * 2 * 2 ^ Suc k) \<le> tot_eps"
      using Suc.prems(1) by (simp add: mult.assoc)
    from Suc.IH [OF this True] obtain j where j: "1 \<le> j"
      "max_noise_std_loop (\<lambda>x. x) (\<lambda>s. Inr (g s)) tot_eps (m * 2) (g (m * 2))
         = Some (Inr (m * 2 * 2 ^ j))"
      "g (m * 2 * 2 ^ j) \<le> tot_eps"
      by blast
    then show ?thesis
      using unfold by (intro exI [of _ "Suc j"]) (simp add: mult.assoc)
  next
    case False
    then have "max_noise_std_loop (\<lambda>x. x) (\<lambda>s. Inr (g s)) tot_eps (m * 2) (g (m * 2))
                 = Some (Inr (m * 2))"
      by (subst max_noise_std_loop.simps) simp
    then show ?thesis
      using unfold False by (intro exI [of _ 1]) simp
  qed
qed

lemma search_loop_converges:
  assumes "high - low \<le> threshold (\<lambda>x. x) * 2 ^ n" and "g high \<le> tot_eps"
    and "low = 0 \<or> tot_eps < g low"
  shows "\<exists>l h. search_loop (\<lambda>x. x) (\<lambda>s. Inr (g s)) tot_eps low high = Some (Inr (l, h))
              \<and> h - l \<le> threshold (\<lambda>x. x) \<and> g h \<le> tot_eps \<and> (l = 0 \<or> tot_eps < g l)"
  using assms
proof (induction n arbitrary: low high)
  case 0
  then have "\<not> low + threshold (\<lambda>x. x) < high" by simp
  then have "search_loop (\<lambda>x. x) (\<lambda>s. Inr (g s)) tot_eps low high = Some (Inr (low, high))"
    by (subst search_loop.simps) simp
  then show ?case using 0 by simp
next
  case (Suc n)
  show ?case
  proof (cases "low + threshold (\<lambda>x. x) < high")
    case False
    then have "search_loop (\<lambda>x. x) (\<lambda>s. Inr (g s)) tot_eps low high = Some (Inr (low, high))"
      by (subst search_loop.simps) simp
    then show ?thesis using False Suc.prems by simp
  next
    case True
    let ?mid = "(high - low) / 2 + low"
    have half: "?mid - low \<le> threshold (\<lambda>x. x) * 2 ^ n" "high - ?mid \<le> threshold (\<lambda>x. x) * 2 ^ n"
      using Suc.prems(1) by (simp_all add: field_simps)
    show ?thesis
    proof (cases "g ?mid \<le> tot_eps")
      case le: True
      have "search_loop (\<lambda>x. x) (\<lambda>s. Inr (g s)) tot_eps low high
              = search_loop (\<lambda>x. x) (\<lambda>s. Inr (g s)) tot_eps low ?mid"
        using True le by (subst search_loop.simps) (simp add: Let_def)
      then show ?thesis
        using Suc.IH [OF half(1) le Suc.prems(3)] by simp
    next
      case gt: False
      have "search_loop (\<lambda>x. x) (\<lambda>s. Inr (g s)) tot_eps low high
              = search_loop (\<lambda>x. x) (\<lambda>s. Inr (g s)) tot_eps ?mid high"
        using True gt by (subst search_loop.simps) (simp add: Let_def)
      moreover have "?mid = 0 \<or> tot_eps < g ?mid" using gt by simp
      ultimately show ?thesis
        using Suc.IH [OF half(2) Suc.prems(2)] by simp
    qed
  qed
qed

lemma threshold_pow: "\<exists>n. (x::real) \<le> threshold (\<lambda>x. x) * 2 ^ n"
proof -
  obtain n where "x / threshold (\<lambda>x. x) < 2 ^ n"
    using real_arch_pow [of 2 "x / threshold (\<lambda>x. x)"] by auto
  then have "x \<le> threshold (\<lambda>x. x) * 2 ^ n"
    by (simp add: threshold_def field_simps)
  then show ?thesis ..
qed

text \<open>In exact arithmetic, with a composed epsilon \<open>g\<close> that is non-increasing on the
  positive noises and at most \<open>total_epsilon\<close> at some positive noise, the search ends
  within the tolerance, at a noise that suffices.\<close>

lemma find_minimum_noise_std_exact:
  assumes "\<forall>x y. 0 < x \<and> x \<le> y \<longrightarrow> g y \<le> g x" and "0 < s" and "g s \<le> tot_eps"
  shows "\<exists>bound low high.
           calculate_max_noise_std (\<lambda>x. x) (\<lambda>s. Inr (g s)) tot_eps = Some (Inr bound)
           \<and> search_loop (\<lambda>x. x) (\<lambda>s. Inr (g s)) tot_eps 0 bound = Some (Inr (low, high))
           \<and> find_minimum_noise_std (\<lambda>x. x) (\<lambda>s. Inr (g s)) tot_eps = Some (Inr high)
           \<and> high - low \<le> 1 / 10000 \<and> g high \<le> tot_eps"
proof -
  obtain n where sn: "s < 2 ^ n"
    using real_arch_pow [of 2 s] by auto
  have "(2::real) ^ n \<le> 2 ^ Suc n"
    by (rule power_increasing) simp_all
  with sn have "s \<le> 2 ^ Suc n" by linarith
  then have "s \<le> 1 * 2 ^ Suc n" by (simp only: mult_1)
  then have "g (1 * 2 ^ Suc n) \<le> g s"
    using assms(1,2) by blast
  then have reach: "g (1 * 2 ^ Suc n) \<le> tot_eps"
    using assms(3) by simp
  have "tot_eps < tot_eps + 1" by simp
  from max_noise_std_loop_bracket [of g 1 n tot_eps "tot_eps + 1", OF reach this]
  obtain bound where
    b: "calculate_max_noise_std (\<lambda>x. x) (\<lambda>s. Inr (g s)) tot_eps = Some (Inr bound)"
    and gb: "g bound \<le> tot_eps"
    by (auto simp add: calculate_max_noise_std_def)
  obtain k where "bound - 0 \<le> threshold (\<lambda>x. x) * 2 ^ k"
    using threshold_pow [of "bound - 0"] by blast
  from search_loop_converges [of bound 0 k g tot_eps, OF this gb]
  obtain low high where
    sl: "search_loop (\<lambda>x. x) (\<lambda>s. Inr (g s)) tot_eps 0 bound = Some (Inr (low, high))"
    and fin: "high - low \<le> threshold (\<lambda>x. x)" "g high \<le> tot_eps"
    by auto
  have "find_minimum_noise_std (\<lambda>x. x) (\<lambda>s. Inr (g s)) tot_eps = Some (Inr high)"
    using b sl by (simp add: find_minimum_noise_std_def)
  then show ?thesis
    using b sl fin by (auto simp add: threshold_def)
qed

subsection \<open>Scope exit in the accountants that calls can reach\<close>

lemma append_to_scope_members:
  assumes "s' \<in> set (append_to_scope m sid heap)"
  shows "\<exists>s\<in>set heap. set (scope_mechanisms s') \<subseteq> insert m (set (scope_mechanisms s))"
proof (cases "sid < length heap")
  case True
  then have "heap ! sid \<in> set heap" by simp
  moreover have "s' \<in> insert ((heap ! sid)\<lparr>scope_mechanisms := scope_mechanisms (heap ! sid) @ [m]\<rparr>)
                         (set heap)"
    using assms set_update_subset_insert [of heap sid] by (auto simp add: append_to_scope_def)
  ultimately show ?thesis by auto
next
  case False
  then have "append_to_scope m sid heap = heap"
    by (simp add: append_to_scope_def list_update_beyond)
  then show ?thesis using assms by auto
qed

lemma fold_append_to_scope_members:
  "s' \<in> set (fold (append_to_scope m) sids heap) \<Longrightarrow>
     \<exists>s\<in>set heap. set (scope_mechanisms s') \<subseteq> insert m (set (scope_mechanisms s))"
proof (induction sids arbitrary: heap)
  case Nil
  then show ?case by auto
next
  case (Cons sid sids)
  then obtain s1 where s1: "s1 \<in> set (append_to_scope m sid heap)"
    "set (scope_mechanisms s') \<subseteq> insert m (set (scope_mechanisms s1))"
    by auto
  from append_to_scope_members [OF s1(1)] obtain s where "s \<in> set heap"
    "set (scope_mechanisms s1) \<subseteq> insert m (set (scope_mechanisms s))" by blast
  then show ?case using s1(2) by blast
qed

lemma register_mechanism_references:
  assumes "references_valid a"
  shows "references_valid (snd (register_mechanism a mechanism))"
  unfolding references_valid_def
proof (intro ballI)
  fix s' i
  assume s': "s' \<in> set (scope_heap (snd (register_mechanism a mechanism)))"
    and i: "i \<in> set (scope_mechanisms s')"
  have "s' \<in> set (fold (append_to_scope (length (mechanisms a))) (scopes_stack a) (scope_heap a))"
    using s' by (simp add: register_mechanism_def Let_def)
  from fold_append_to_scope_members [OF this] obtain s where "s \<in> set (scope_heap a)"
    "set (scope_mechanisms s') \<subseteq> insert (length (mechanisms a)) (set (scope_mechanisms s))"
    by blast
  then have "i \<le> length (mechanisms a)"
    using i assms by (fastforce simp add: references_valid_def)
  then show "i < length (mechanisms (snd (register_mechanism a mechanism)))"
    by (simp add: register_mechanism_def Let_def)
qed

lemma scope_heap_cases:
  "scope_heap (snd (scope a w ag)) = scope_heap a
   \<or> (\<exists>s. scope_mechanisms s = [] \<and> scope_heap (snd (scope a w ag)) = scope_heap a @ [s])"
proof -
  have n: "scope_heap (snd (new_scope b w idx)) = scope_heap b
           \<or> (\<exists>s. scope_mechanisms s = [] \<and> scope_heap (snd (new_scope b w idx)) = scope_heap b @ [s])"
    for b idx
    by (auto simp add: new_scope_def BudgetAccountantScope_init_def
        compute_budget_for_aggregation_scope_def Let_def
        split: sum.splits if_splits option.splits)
  show ?thesis
    using n [of a None] n [of "a\<lparr>next_aggregation_index := next_aggregation_index a + 1\<rparr>"
                             "Some (next_aggregation_index a)"]
    by (auto simp add: scope_def get_next_aggregation_index_def split: option.splits)
qed

lemma BudgetAccountantScope_exit_heap:
  "scope_heap (snd (BudgetAccountantScope_exit a sid)) = scope_heap a
   \<and> length (mechanisms (snd (BudgetAccountantScope_exit a sid))) = length (mechanisms a)"
proof -
  have "length (map mechanism_spec (mechanisms (snd (BudgetAccountantScope_exit a sid))))
          = length (map mechanism_spec (mechanisms a))"
    using BudgetAccountantScope_exit_frame [of a sid] by simp
  moreover have "scope_heap (snd (BudgetAccountantScope_exit a sid)) = scope_heap a"
    by (auto simp add: BudgetAccountantScope_exit_def exit_scope_def Let_def
        split: sum.splits prod.splits)
  ultimately show ?thesis by simp
qed

lemma compute_budgets_heap:
  assumes "compute_budgets lib a = Some (r, a')"
  shows "scope_heap a' = scope_heap a"
proof -
  consider (ok) "finalize a = (Inr (), a\<lparr>finalized := True\<rparr>)"
    | (err) e where "finalize a = (Inl e, a)"
    using finalize_cases [of a] by auto
  then show ?thesis
  proof cases
    case ok
    then show ?thesis using assms
      by (cases "accountant_class a")
         (auto simp add: compute_budgets_def Naive_compute_budgets_def PLD_compute_budgets_def
            Let_def split: if_splits prod.splits option.splits sum.splits)
  next
    case err
    then show ?thesis using assms
      by (cases "accountant_class a")
         (auto simp add: compute_budgets_def Naive_compute_budgets_def PLD_compute_budgets_def)
  qed
qed

lemma step_references:
  "step lib a c a' \<Longrightarrow> references_valid a \<Longrightarrow> references_valid a'"
proof (induction rule: step.induct)
  case (step_request a t sens w c noise_std)
  from request_budget_cases [of a t sens w c noise_std] show ?case
    using step_request register_mechanism_references by auto
next
  case (step_scope a w aggregation_scope)
  then show ?case
    using scope_heap_cases [of a w aggregation_scope] scope_frame [of a w aggregation_scope]
    by (auto simp add: references_valid_def)
next
  case (step_enter sid a)
  then show ?case
    using enter_scope_frame [of a sid]
    by (simp add: references_valid_def BudgetAccountantScope_enter_def)
next
  case (step_exit sid a)
  then show ?case
    using BudgetAccountantScope_exit_heap [of a sid] by (simp add: references_valid_def)
next
  case (step_compute a r a')
  then show ?case
    using compute_budgets_heap [of lib a r a'] compute_budgets_result [of lib a r a']
    by (auto simp add: references_valid_def)
qed

lemma reachable_references: "reachable lib a \<Longrightarrow> references_valid a"
proof (induction rule: reachable.induct)
  case (reachable_init a)
  then show ?case
    by (auto simp add: references_valid_def fresh_accountant_def NaiveBudgetAccountant_init_def
        PLDBudgetAccountant_init_def new_accountant_def split: sum.splits)
next
  case (reachable_step a c a')
  then show ?case using step_references by blast
qed

lemma two_weights_scope_state_reachable: "reachable lib two_weights_scope_state"
proof -
  let ?a0 = "new_accountant NaiveBudgetAccountant 1 0 0 None None"
  let ?a1 = "snd (scope ?a0 2 False)"
  let ?a2 = "snd (BudgetAccountantScope_enter ?a1 0)"
  let ?a3 = "snd (request_budget ?a2 LAPLACE 1 1 1 None)"
  let ?a4 = "snd (request_budget ?a3 LAPLACE 1 3 1 None)"
  have "NaiveBudgetAccountant_init 1 0 None None = Inr ?a0"
    by (simp add: NaiveBudgetAccountant_init_def BudgetAccountant_init_def
        validate_epsilon_delta_def)
  then have "fresh_accountant ?a0"
    unfolding fresh_accountant_def by blast
  then have "reachable lib ?a1"
    by (intro reachable_step [OF reachable_init step_scope])
  moreover have "0 < length (scope_heap ?a1)"
    by (simp add: build_defs)
  ultimately have "reachable lib ?a2"
    by (intro reachable_step [OF _ step_enter])
  then have "reachable lib ?a4"
    by (intro reachable_step [OF reachable_step [OF _ step_request] step_request])
  moreover have "?a4 = two_weights_scope_state"
    by (simp add: two_weights_scope_state_def request_budget_def build_defs)
  ultimately show ?thesis by simp
qed

subsection \<open>Call sequences that enter scopes in order\<close>

lemma disciplined_reachable: "disciplined lib a \<Longrightarrow> reachable lib a"
  by (induction rule: disciplined.induct) (auto intro: reachable.intros)

lemma aggregation_scope_open_iff:
  "aggregation_scope_open a \<longleftrightarrow> aggregation_scopes_on_stack a \<noteq> []"
  by (auto simp add: aggregation_scope_open_def aggregation_scopes_on_stack_def filter_empty_conv)

lemma length_append_to_scope: "length (append_to_scope m sid heap) = length heap"
  by (simp add: append_to_scope_def)

lemma length_fold_append_to_scope: "length (fold (append_to_scope m) sids heap) = length heap"
  by (induction sids arbitrary: heap) (simp_all add: length_append_to_scope)

lemma nth_append_to_scope:
  "i < length heap \<Longrightarrow>
     index_aggregation_scope (append_to_scope m sid heap ! i) = index_aggregation_scope (heap ! i)
     \<and> scope_mechanisms (append_to_scope m sid heap ! i)
         = scope_mechanisms (heap ! i) @ (if i = sid then [m] else [])"
  by (simp add: append_to_scope_def nth_list_update)

lemma nth_fold_append_to_scope:
  "i < length heap \<Longrightarrow> distinct sids \<Longrightarrow>
     index_aggregation_scope (fold (append_to_scope m) sids heap ! i)
       = index_aggregation_scope (heap ! i)
     \<and> scope_mechanisms (fold (append_to_scope m) sids heap ! i)
         = scope_mechanisms (heap ! i) @ (if i \<in> set sids then [m] else [])"
proof (induction sids arbitrary: heap)
  case Nil
  then show ?case by simp
next
  case (Cons sid sids)
  let ?h1 = "append_to_scope m sid heap"
  have len: "i < length ?h1" using Cons.prems(1) by (simp add: length_append_to_scope)
  have d: "distinct sids" "sid \<notin> set sids" using Cons.prems(2) by simp_all
  have ih: "index_aggregation_scope (fold (append_to_scope m) sids ?h1 ! i)
              = index_aggregation_scope (?h1 ! i)
            \<and> scope_mechanisms (fold (append_to_scope m) sids ?h1 ! i)
                = scope_mechanisms (?h1 ! i) @ (if i \<in> set sids then [m] else [])"
    using Cons.IH [OF len d(1)] .
  have unfold: "fold (append_to_scope m) (sid # sids) heap = fold (append_to_scope m) sids ?h1"
    by simp
  show ?case
    unfolding unfold using ih nth_append_to_scope [OF Cons.prems(1), of m sid] d(2) by auto
qed

lemma register_mechanism_usage:
  assumes inv: "usage_invariant a" and refs: "references_valid a"
  shows "usage_invariant (snd (register_mechanism a mechanism))"
proof -
  let ?n = "length (mechanisms a)"
  let ?heap' = "fold (append_to_scope ?n) (scopes_stack a) (scope_heap a)"
  let ?a' = "snd (register_mechanism a mechanism)"
  have fields: "scopes_stack ?a' = scopes_stack a" "scope_heap ?a' = ?heap'"
    "inside_aggregation_scope ?a' = inside_aggregation_scope a"
    by (simp_all add: register_mechanism_def Let_def)
  have d: "distinct (scopes_stack a)"
    and bound: "\<forall>sid\<in>set (scopes_stack a). sid < length (scope_heap a)"
    using inv by (simp_all add: usage_invariant_def)
  have len: "length ?heap' = length (scope_heap a)"
    by (rule length_fold_append_to_scope)
  have nth: "index_aggregation_scope (?heap' ! i) = index_aggregation_scope (scope_heap a ! i)
             \<and> scope_mechanisms (?heap' ! i)
                 = scope_mechanisms (scope_heap a ! i) @ (if i \<in> set (scopes_stack a) then [?n] else [])"
    if "i < length (scope_heap a)" for i
    using nth_fold_append_to_scope [OF that d] .
  have lists: "\<forall>s\<in>set ?heap'. distinct (scope_mechanisms s)"
  proof
    fix s
    assume "s \<in> set ?heap'"
    then obtain i where i: "i < length (scope_heap a)" and s: "s = ?heap' ! i"
      using len by (auto simp add: in_set_conv_nth)
    have old: "scope_heap a ! i \<in> set (scope_heap a)" using i by simp
    then have "distinct (scope_mechanisms (scope_heap a ! i))"
      using inv by (simp add: usage_invariant_def)
    moreover have "?n \<notin> set (scope_mechanisms (scope_heap a ! i))"
      using refs old by (auto simp add: references_valid_def)
    ultimately show "distinct (scope_mechanisms s)"
      using nth [OF i] s by simp
  qed
  have "aggregation_scopes_on_stack ?a' = aggregation_scopes_on_stack a"
    unfolding aggregation_scopes_on_stack_def fields
    using bound nth by (intro filter_cong) (auto simp add: is_aggregation_scope_def)
  then show ?thesis
    using inv lists len by (simp add: usage_invariant_def fields)
qed

lemma scope_usage:
  assumes inv: "usage_invariant a"
  shows "usage_invariant (snd (scope a w ag))"
proof -
  let ?a' = "snd (scope a w ag)"
  have fields: "scopes_stack ?a' = scopes_stack a"
    "inside_aggregation_scope ?a' = inside_aggregation_scope a"
    using scope_frame [of a w ag] by simp_all
  have bound: "\<forall>sid\<in>set (scopes_stack a). sid < length (scope_heap a)"
    using inv by (simp add: usage_invariant_def)
  consider (same) "scope_heap ?a' = scope_heap a"
    | (new) s where "scope_mechanisms s = []" "scope_heap ?a' = scope_heap a @ [s]"
    using scope_heap_cases [of a w ag] by blast
  then show ?thesis
  proof cases
    case same
    then show ?thesis
      using inv by (simp add: usage_invariant_def aggregation_scopes_on_stack_def fields)
  next
    case new
    have "aggregation_scopes_on_stack ?a' = aggregation_scopes_on_stack a"
      unfolding aggregation_scopes_on_stack_def fields new(2)
      using bound by (intro filter_cong) (auto simp add: nth_append)
    then show ?thesis
      using inv new by (auto simp add: usage_invariant_def fields)
  qed
qed

lemma enter_scope_fields:
  "scopes_stack (enter_scope a sid) = scopes_stack a @ [sid]
   \<and> inside_aggregation_scope (enter_scope a sid)
       = (inside_aggregation_scope a \<or> is_aggregation_scope (scope_heap a ! sid))
   \<and> scope_heap (enter_scope a sid) = scope_heap a"
  by (simp add: enter_scope_def Let_def)

lemma enter_scope_usage:
  assumes inv: "usage_invariant a" and sid: "sid < length (scope_heap a)"
    and ord: "enters_in_order a (Enter sid)"
  shows "usage_invariant (enter_scope a sid)"
proof -
  have new: "sid \<notin> set (scopes_stack a)"
    and free: "is_aggregation_scope (scope_heap a ! sid) \<Longrightarrow> \<not> inside_aggregation_scope a"
    using ord by (simp_all add: enters_in_order_def)
  have stack: "aggregation_scopes_on_stack (enter_scope a sid)
                 = aggregation_scopes_on_stack a
                   @ (if is_aggregation_scope (scope_heap a ! sid) then [sid] else [])"
    by (simp add: aggregation_scopes_on_stack_def enter_scope_fields)
  show ?thesis
  proof (cases "is_aggregation_scope (scope_heap a ! sid)")
    case True
    then have "aggregation_scopes_on_stack a = []"
      using free inv by (simp add: usage_invariant_def)
    then show ?thesis
      using inv sid new True stack by (simp add: usage_invariant_def enter_scope_fields)
  next
    case False
    then show ?thesis
      using inv sid new stack by (simp add: usage_invariant_def enter_scope_fields)
  qed
qed

lemma BudgetAccountantScope_exit_fields:
  "scope_heap (snd (BudgetAccountantScope_exit a sid)) = scope_heap a
   \<and> (scopes_stack a = [] \<longrightarrow> snd (BudgetAccountantScope_exit a sid) = a)
   \<and> (scopes_stack a \<noteq> [] \<longrightarrow>
        scopes_stack (snd (BudgetAccountantScope_exit a sid)) = butlast (scopes_stack a)
        \<and> inside_aggregation_scope (snd (BudgetAccountantScope_exit a sid))
            = (if is_aggregation_scope (scope_heap a ! last (scopes_stack a)) then False
               else inside_aggregation_scope a))"
  by (auto simp add: BudgetAccountantScope_exit_def exit_scope_def Let_def split: sum.splits)

lemma BudgetAccountantScope_exit_usage:
  assumes inv: "usage_invariant a"
  shows "usage_invariant (snd (BudgetAccountantScope_exit a sid))"
proof (cases "scopes_stack a = []")
  case True
  then show ?thesis using inv BudgetAccountantScope_exit_fields [of a sid] by simp
next
  case False
  let ?a' = "snd (BudgetAccountantScope_exit a sid)"
  let ?top = "last (scopes_stack a)"
  have fields: "scope_heap ?a' = scope_heap a" "scopes_stack ?a' = butlast (scopes_stack a)"
    "inside_aggregation_scope ?a'
       = (if is_aggregation_scope (scope_heap a ! ?top) then False else inside_aggregation_scope a)"
    using False BudgetAccountantScope_exit_fields [of a sid] by simp_all
  have split: "scopes_stack a = butlast (scopes_stack a) @ [?top]"
    using False by simp
  have agg: "aggregation_scopes_on_stack a
               = aggregation_scopes_on_stack ?a'
                 @ (if is_aggregation_scope (scope_heap a ! ?top) then [?top] else [])"
    unfolding aggregation_scopes_on_stack_def fields
    by (subst split) simp
  have sub: "set (butlast (scopes_stack a)) \<subseteq> set (scopes_stack a)"
    by (auto dest: in_set_butlastD)
  have basic: "(\<forall>sid\<in>set (scopes_stack ?a'). sid < length (scope_heap ?a'))
               \<and> distinct (scopes_stack ?a')
               \<and> (\<forall>s\<in>set (scope_heap ?a'). distinct (scope_mechanisms s))"
    using inv sub by (auto simp add: usage_invariant_def fields distinct_butlast)
  show ?thesis
  proof (cases "is_aggregation_scope (scope_heap a ! ?top)")
    case True
    then have "length (aggregation_scopes_on_stack ?a') + 1 \<le> 1"
      using inv agg by (simp add: usage_invariant_def)
    then have "aggregation_scopes_on_stack ?a' = []" by simp
    then show ?thesis
      using basic True by (simp add: usage_invariant_def fields)
  next
    case False
    then have "aggregation_scopes_on_stack ?a' = aggregation_scopes_on_stack a"
      using agg by simp
    then show ?thesis
      using basic inv False by (simp add: usage_invariant_def fields)
  qed
qed

lemma compute_budgets_fields:
  assumes "compute_budgets lib a = Some (r, a')"
  shows "scopes_stack a' = scopes_stack a
       \<and> inside_aggregation_scope a' = inside_aggregation_scope a"
proof -
  consider (ok) "finalize a = (Inr (), a\<lparr>finalized := True\<rparr>)"
    | (err) e where "finalize a = (Inl e, a)"
    using finalize_cases [of a] by auto
  then show ?thesis
  proof cases
    case ok
    then show ?thesis using assms
      by (cases "accountant_class a")
         (auto simp add: compute_budgets_def Naive_compute_budgets_def PLD_compute_budgets_def
            Let_def split: if_splits prod.splits option.splits sum.splits)
  next
    case err
    then show ?thesis using assms
      by (cases "accountant_class a")
         (auto simp add: compute_budgets_def Naive_compute_budgets_def PLD_compute_budgets_def)
  qed
qed

lemma step_usage:
  "step lib a c a' \<Longrightarrow> enters_in_order a c \<Longrightarrow> usage_invariant a \<Longrightarrow> references_valid a
     \<Longrightarrow> usage_invariant a'"
proof (induction rule: step.induct)
  case (step_request a t sens w c noise_std)
  from request_budget_cases [of a t sens w c noise_std] show ?case
    using step_request register_mechanism_usage by auto
next
  case (step_scope a w aggregation_scope)
  then show ?case using scope_usage by simp
next
  case (step_enter sid a)
  then show ?case
    using enter_scope_usage by (simp add: BudgetAccountantScope_enter_def)
next
  case (step_exit sid a)
  then show ?case using BudgetAccountantScope_exit_usage by simp
next
  case (step_compute a r a')
  then show ?case
    using compute_budgets_heap [of lib a r a'] compute_budgets_fields [of lib a r a']
    by (simp add: usage_invariant_def aggregation_scopes_on_stack_def)
qed

lemma disciplined_usage: "disciplined lib a \<Longrightarrow> usage_invariant a"
proof (induction rule: disciplined.induct)
  case (disciplined_init a)
  then show ?case
    by (auto simp add: usage_invariant_def aggregation_scopes_on_stack_def fresh_accountant_def
        NaiveBudgetAccountant_init_def PLDBudgetAccountant_init_def new_accountant_def
        split: sum.splits)
next
  case (disciplined_step a c a')
  then show ?case
    using step_usage reachable_references [OF disciplined_reachable] by blast
qed

lemma twice_entered_state_eq:
  "twice_entered_state =
     \<lparr>accountant_class = NaiveBudgetAccountant, scopes_stack = [0, 0],
      mechanisms = [new_mechanism LAPLACE 1 1 1], finalized = False,
      n_aggregations = None, aggregation_weights = None, next_aggregation_index = 0,
      inside_aggregation_scope = False, total_epsilon = 1, total_delta = 0,
      minimum_noise_std = None, pld_discretization = 0,
      scope_heap = [\<lparr>scope_weight = 1, index_aggregation_scope = None, scope_epsilon = None,
                     scope_delta = None, scope_mechanisms = [0, 0]\<rparr>]\<rparr>"
  by (simp add: twice_entered_state_def Naive_request_budget_def BudgetAccountantScope_enter_def
      scope_def new_accountant_def truthy_int_def truthy_list_def new_scope_def
      BudgetAccountantScope_init_def enter_scope_def is_aggregation_scope_def
      register_mechanism_def append_to_scope_def Let_def)

lemma twice_entered_exit:
  "fst (BudgetAccountantScope_exit twice_entered_state 0) = Inr ()
   \<and> scope_weight (scope_heap twice_entered_state ! 0)
       / total_weight (scope_heap twice_entered_state ! 0) (mechanisms twice_entered_state) = 1 / 2
   \<and> weight (mechanisms twice_entered_state ! 0) = 1
   \<and> weight (mechanisms (snd (BudgetAccountantScope_exit twice_entered_state 0)) ! 0) = 1 / 4"
  by (simp add: twice_entered_state_eq total_weight_def new_mechanism_def
      BudgetAccountantScope_exit_def exit_scope_def is_aggregation_scope_def
      normalise_mechanism_weights_def py_div_def scale_weight_def Let_def)

lemma early_made_scopes_state_eq:
  "early_made_scopes_state =
     \<lparr>accountant_class = NaiveBudgetAccountant, scopes_stack = [0],
      mechanisms = [], finalized = False,
      n_aggregations = None, aggregation_weights = Some [1, 1, 1], next_aggregation_index = 2,
      inside_aggregation_scope = False, total_epsilon = 1, total_delta = 0,
      minimum_noise_std = None, pld_discretization = 0,
      scope_heap = [\<lparr>scope_weight = 1, index_aggregation_scope = Some 0,
                     scope_epsilon = Some (1 / 3), scope_delta = Some 0, scope_mechanisms = []\<rparr>,
                    \<lparr>scope_weight = 1, index_aggregation_scope = Some 1,
                     scope_epsilon = Some (1 / 3), scope_delta = Some 0, scope_mechanisms = []\<rparr>]\<rparr>"
  by (simp add: early_made_scopes_state_def build_defs BudgetAccountantScope_exit_def
      exit_scope_def normalise_mechanism_weights_def)

lemma early_made_scopes_nested:
  "truthy_list (aggregation_weights early_made_scopes_state)
   \<and> scopes_stack early_made_scopes_state = [0]
   \<and> is_aggregation_scope (scope_heap early_made_scopes_state ! 0)
   \<and> fst (scope early_made_scopes_state 1 True) = Inr 2"
  by (simp add: early_made_scopes_state_eq build_defs)

lemma count_list_distinct:
  "distinct xs \<Longrightarrow> count_list xs x = (if x \<in> set xs then 1 else 0)"
  by (induction xs) auto

lemma scope_unconstrained:
  assumes "\<not> truthy_int (n_aggregations a)" and "\<not> truthy_list (aggregation_weights a)"
  shows "scope a w True = scope a w False
       \<and> scope a w True
           = (Inr (length (scope_heap a)),
              a\<lparr>scope_heap := scope_heap a
                   @ [\<lparr>scope_weight = w, index_aggregation_scope = None, scope_epsilon = None,
                       scope_delta = None, scope_mechanisms = []\<rparr>]\<rparr>)"
  using assms by (simp add: scope_def new_scope_def BudgetAccountantScope_init_def)

text \<open>
  The guard of \<open>_normalise_mechanism_weights\<close> is on the list of the scope being empty,
  not on the sum of the weights: a scope that holds one mechanism of weight 0 has the sum
  0, and its exit raises \<open>ZeroDivisionError\<close>. And a scope that is entered twice before
  a mechanism is registered holds the mechanism twice: for the weights 1 of the scope
  and of the mechanism, \<open>S = 2\<close> and the weight is multiplied by \<open>w / S = 1 / 2\<close> twice.
\<close>

theorem scope_exit_zero_sum_counterexample:
  "NaiveBudgetAccountant_init 1 0 None None = Inr (new_accountant NaiveBudgetAccountant 1 0 0 None None)
   \<and> total_weight (scope_heap zero_weight_scope_state ! 0) (mechanisms zero_weight_scope_state) = 0
   \<and> fst (BudgetAccountantScope_exit zero_weight_scope_state 0) = Inl ZeroDivisionError
   \<and> fst (BudgetAccountantScope_exit twice_entered_state 0) = Inr ()
   \<and> scope_weight (scope_heap twice_entered_state ! 0)
       / total_weight (scope_heap twice_entered_state ! 0) (mechanisms twice_entered_state) = 1 / 2
   \<and> weight (mechanisms twice_entered_state ! 0) = 1
   \<and> weight (mechanisms (snd (BudgetAccountantScope_exit twice_entered_state 0)) ! 0) = 1 / 4"
proof -
  have "NaiveBudgetAccountant_init 1 0 None None
          = Inr (new_accountant NaiveBudgetAccountant 1 0 0 None None)
        \<and> total_weight (scope_heap zero_weight_scope_state ! 0) (mechanisms zero_weight_scope_state) = 0
        \<and> fst (BudgetAccountantScope_exit zero_weight_scope_state 0) = Inl ZeroDivisionError"
    by (simp add: zero_weight_scope_state_eq NaiveBudgetAccountant_init_def BudgetAccountant_init_def
        validate_epsilon_delta_def total_weight_def new_mechanism_def BudgetAccountantScope_exit_def
        exit_scope_def is_aggregation_scope_def normalise_mechanism_weights_def py_div_def Let_def)
  then show ?thesis using twice_entered_exit by blast
qed

text \<open>
  Claim C2, as the code has it. In every accountant that calls can reach, on the exit
  of a scope \<open>sid\<close> of weight \<open>w\<close>, called with a scope on the stack, with \<open>S\<close> the sum of
  the weights over the list of mechanisms of the scope: if the list is empty, the exit
  returns and leaves the registry as it is; if \<open>S \<noteq> 0\<close>, the exit returns and the weight
  of every mechanism has been multiplied by \<open>w / S\<close> once for each time the mechanism
  stands in the list, with sensitivity and \<open>MechanismSpec\<close> unchanged; if moreover no
  mechanism stands twice in the list, the weight of every mechanism of the list has been
  multiplied by \<open>w / S\<close> and every other weight is as before; and no mechanism stands
  twice in the list in the accountants reached by call sequences that enter a scope
  only while it is not on the stack.
\<close>

theorem scope_exit_normalises:
  assumes "reachable lib a" and "sid < length (scope_heap a)" and "scopes_stack a \<noteq> []"
  shows "(scope_mechanisms (scope_heap a ! sid) = [] \<longrightarrow>
            fst (BudgetAccountantScope_exit a sid) = Inr ()
            \<and> mechanisms (snd (BudgetAccountantScope_exit a sid)) = mechanisms a)
       \<and> (total_weight (scope_heap a ! sid) (mechanisms a) \<noteq> 0 \<longrightarrow>
            fst (BudgetAccountantScope_exit a sid) = Inr ()
            \<and> length (mechanisms (snd (BudgetAccountantScope_exit a sid))) = length (mechanisms a)
            \<and> (\<forall>j<length (mechanisms a).
                  weight (mechanisms (snd (BudgetAccountantScope_exit a sid)) ! j) =
                    weight (mechanisms a ! j)
                    * (scope_weight (scope_heap a ! sid)
                       / total_weight (scope_heap a ! sid) (mechanisms a))
                      ^ count_list (scope_mechanisms (scope_heap a ! sid)) j
                  \<and> sensitivity (mechanisms (snd (BudgetAccountantScope_exit a sid)) ! j) =
                      sensitivity (mechanisms a ! j)
                  \<and> mechanism_spec (mechanisms (snd (BudgetAccountantScope_exit a sid)) ! j) =
                      mechanism_spec (mechanisms a ! j)))
       \<and> (total_weight (scope_heap a ! sid) (mechanisms a) \<noteq> 0
          \<and> distinct (scope_mechanisms (scope_heap a ! sid)) \<longrightarrow>
            (\<forall>j<length (mechanisms a).
               weight (mechanisms (snd (BudgetAccountantScope_exit a sid)) ! j) =
                 (if j \<in> set (scope_mechanisms (scope_heap a ! sid))
                  then weight (mechanisms a ! j)
                       * (scope_weight (scope_heap a ! sid)
                          / total_weight (scope_heap a ! sid) (mechanisms a))
                  else weight (mechanisms a ! j))))
       \<and> (disciplined lib a \<longrightarrow> distinct (scope_mechanisms (scope_heap a ! sid)))"
proof -
  have mem: "scope_heap a ! sid \<in> set (scope_heap a)"
    using assms(2) by simp
  then have "\<forall>i\<in>set (scope_mechanisms (scope_heap a ! sid)). i < length (mechanisms a)"
    using reachable_references [OF assms(1)] by (simp add: references_valid_def)
  note general = BudgetAccountantScope_exit_normalises [OF assms(3) this]
  have once: "\<forall>j<length (mechanisms a).
               weight (mechanisms (snd (BudgetAccountantScope_exit a sid)) ! j) =
                 (if j \<in> set (scope_mechanisms (scope_heap a ! sid))
                  then weight (mechanisms a ! j)
                       * (scope_weight (scope_heap a ! sid)
                          / total_weight (scope_heap a ! sid) (mechanisms a))
                  else weight (mechanisms a ! j))"
    if "total_weight (scope_heap a ! sid) (mechanisms a) \<noteq> 0"
      and "distinct (scope_mechanisms (scope_heap a ! sid))"
    using general that by (simp add: count_list_distinct)
  have lists: "distinct (scope_mechanisms (scope_heap a ! sid))" if "disciplined lib a"
    using disciplined_usage [OF that] mem by (simp add: usage_invariant_def)
  show ?thesis
    using general once lists by blast
qed

lemma two_weights_scope_state_disciplined: "disciplined lib two_weights_scope_state"
proof -
  let ?a0 = "new_accountant NaiveBudgetAccountant 1 0 0 None None"
  let ?a1 = "snd (scope ?a0 2 False)"
  let ?a2 = "snd (BudgetAccountantScope_enter ?a1 0)"
  let ?a3 = "snd (request_budget ?a2 LAPLACE 1 1 1 None)"
  let ?a4 = "snd (request_budget ?a3 LAPLACE 1 3 1 None)"
  have "NaiveBudgetAccountant_init 1 0 None None = Inr ?a0"
    by (simp add: NaiveBudgetAccountant_init_def BudgetAccountant_init_def
        validate_epsilon_delta_def)
  then have "fresh_accountant ?a0"
    unfolding fresh_accountant_def by blast
  then have "disciplined lib ?a1"
    by (intro disciplined_step [OF disciplined_init step_scope]) (simp_all add: enters_in_order_def)
  moreover have "0 < length (scope_heap ?a1)"
    by (simp add: build_defs)
  moreover have "enters_in_order ?a1 (Enter 0)"
    by (simp add: enters_in_order_def build_defs)
  ultimately have "disciplined lib ?a2"
    by (intro disciplined_step [OF _ step_enter])
  then have "disciplined lib ?a3"
    by (rule disciplined_step [OF _ step_request]) (simp add: enters_in_order_def)
  then have "disciplined lib ?a4"
    by (rule disciplined_step [OF _ step_request]) (simp add: enters_in_order_def)
  moreover have "?a4 = two_weights_scope_state"
    by (simp add: two_weights_scope_state_def request_budget_def build_defs)
  ultimately show ?thesis by simp
qed

text \<open>Weights \<open>[1, 3]\<close> in a scope of weight 2 become \<open>[2 * 1 / 4, 2 * 3 / 4]\<close>.\<close>

theorem scope_exit_normalises_witness:
  "reachable toy_pldlib two_weights_scope_state
   \<and> disciplined toy_pldlib two_weights_scope_state
   \<and> distinct (scope_mechanisms (scope_heap two_weights_scope_state ! 0))
   \<and> fst (BudgetAccountantScope_exit two_weights_scope_state 0) = Inr ()
   \<and> map weight (mechanisms (snd (BudgetAccountantScope_exit two_weights_scope_state 0)))
       = [2 * 1 / (1 + 3), 2 * 3 / (1 + 3)]"
proof -
  have r: "reachable toy_pldlib two_weights_scope_state"
    by (rule two_weights_scope_state_reachable)
  have dis: "disciplined toy_pldlib two_weights_scope_state"
    by (rule two_weights_scope_state_disciplined)
  have sid: "0 < length (scope_heap two_weights_scope_state)"
    and stack: "scopes_stack two_weights_scope_state \<noteq> []"
    by (simp_all add: two_weights_scope_state_eq)
  have tw: "total_weight (scope_heap two_weights_scope_state ! 0) (mechanisms two_weights_scope_state) = 4"
    by (simp add: two_weights_scope_state_eq total_weight_def new_mechanism_def)
  have tw_ne: "total_weight (scope_heap two_weights_scope_state ! 0)
                 (mechanisms two_weights_scope_state) \<noteq> 0"
    by (simp add: tw)
  note t = scope_exit_normalises [OF r sid stack]
  have d: "distinct (scope_mechanisms (scope_heap two_weights_scope_state ! 0))"
    using t dis by blast
  have "fst (BudgetAccountantScope_exit two_weights_scope_state 0) = Inr ()
        \<and> length (mechanisms (snd (BudgetAccountantScope_exit two_weights_scope_state 0)))
            = length (mechanisms two_weights_scope_state)"
    using t tw_ne by blast
  then have ok: "fst (BudgetAccountantScope_exit two_weights_scope_state 0) = Inr ()"
    and len: "length (mechanisms (snd (BudgetAccountantScope_exit two_weights_scope_state 0))) = 2"
    by (simp_all add: two_weights_scope_state_eq)
  have each: "\<forall>j<length (mechanisms two_weights_scope_state).
               weight (mechanisms (snd (BudgetAccountantScope_exit two_weights_scope_state 0)) ! j) =
                 (if j \<in> set (scope_mechanisms (scope_heap two_weights_scope_state ! 0))
                  then weight (mechanisms two_weights_scope_state ! j)
                       * (scope_weight (scope_heap two_weights_scope_state ! 0)
                          / total_weight (scope_heap two_weights_scope_state ! 0)
                              (mechanisms two_weights_scope_state))
                  else weight (mechanisms two_weights_scope_state ! j))"
    using t tw_ne d by blast
  have w0: "weight (mechanisms (snd (BudgetAccountantScope_exit two_weights_scope_state 0)) ! 0) = 1 / 2"
    using each [rule_format, of 0] tw by (simp add: two_weights_scope_state_eq new_mechanism_def)
  have w1: "weight (mechanisms (snd (BudgetAccountantScope_exit two_weights_scope_state 0)) ! 1) = 3 / 2"
    using each [rule_format, of 1] tw by (simp add: two_weights_scope_state_eq new_mechanism_def)
  have "map weight (mechanisms (snd (BudgetAccountantScope_exit two_weights_scope_state 0)))
          = [1 / 2, 3 / 2]"
    using len w0 w1 by (intro nth_equalityI) (auto simp add: less_Suc_eq numeral_2_eq_2)
  then show ?thesis using r dis d ok by simp
qed

text \<open>
  With neither \<open>n_aggregations\<close> nor \<open>aggregation_weights\<close> set, \<open>scope()\<close> gives no scope
  an aggregation index, so no scope is an aggregation scope and nothing is checked:
  inside \<open>with accountant.scope(1, aggregation_scope=True)\<close> a second
  \<open>scope(1, aggregation_scope=True)\<close> returns a scope. And with
  \<open>aggregation_weights = [1, 1, 1]\<close>, the check is on the flag
  \<open>_inside_aggregation_scope\<close>, which the exit of any aggregation scope clears: when two
  aggregation scopes are made first and the second is entered and left inside the first,
  \<open>scope(1, aggregation_scope=True)\<close> returns a scope while the first is still open.
\<close>

theorem nested_aggregation_scope_counterexample:
  "fst (scope (new_accountant NaiveBudgetAccountant 1 0 0 None None) 1 True) = Inr 0
   \<and> scopes_stack unconstrained_aggregation_state = [0]
   \<and> fst (scope unconstrained_aggregation_state 1 True) = Inr 1
   \<and> truthy_list (aggregation_weights early_made_scopes_state)
   \<and> scopes_stack early_made_scopes_state = [0]
   \<and> is_aggregation_scope (scope_heap early_made_scopes_state ! 0)
   \<and> fst (scope early_made_scopes_state 1 True) = Inr 2"
proof -
  have "fst (scope (new_accountant NaiveBudgetAccountant 1 0 0 None None) 1 True) = Inr 0
        \<and> scopes_stack unconstrained_aggregation_state = [0]
        \<and> fst (scope unconstrained_aggregation_state 1 True) = Inr 1"
    by (simp add: unconstrained_aggregation_state_def build_defs)
  then show ?thesis using early_made_scopes_nested by blast
qed

text \<open>
  Claim C4, as the code has it. For an accountant with \<open>n_aggregations\<close> or a non-empty
  \<open>aggregation_weights\<close>, \<open>scope(weight, aggregation_scope=True)\<close> fails with
  "Aggregation scopes can not be nested" and changes nothing whenever the flag
  \<open>_inside_aggregation_scope\<close> is set; it does so right after a scope that
  \<open>scope(w1, aggregation_scope=True)\<close> returned has been entered; and it does so whenever
  an aggregation scope is open, in the accountants reached by call sequences that enter
  a scope only while it is not on the stack and an aggregation scope only while the
  flag is not set: in those, the flag is set exactly when an aggregation scope is open.
  For an accountant with neither, \<open>scope(weight, aggregation_scope=True)\<close> does what
  \<open>scope(weight)\<close> does: it returns a new scope, which has no aggregation index.
\<close>

theorem nested_aggregation_scope_fails:
  "(truthy_int (n_aggregations a) \<or> truthy_list (aggregation_weights a) \<longrightarrow>
      (inside_aggregation_scope a \<longrightarrow> scope a w True = (Inl NestedAggregationScopes, a))
      \<and> (\<forall>sid a1. scope a w1 True = (Inr sid, a1) \<longrightarrow>
            scope (snd (BudgetAccountantScope_enter a1 sid)) w True
              = (Inl NestedAggregationScopes, snd (BudgetAccountantScope_enter a1 sid)))
      \<and> (disciplined lib a \<and> aggregation_scope_open a \<longrightarrow>
            scope a w True = (Inl NestedAggregationScopes, a)))
   \<and> (disciplined lib a \<longrightarrow> (inside_aggregation_scope a \<longleftrightarrow> aggregation_scope_open a))
   \<and> (\<not> truthy_int (n_aggregations a) \<and> \<not> truthy_list (aggregation_weights a) \<longrightarrow>
        scope a w True = scope a w False
        \<and> scope a w True
            = (Inr (length (scope_heap a)),
               a\<lparr>scope_heap := scope_heap a
                    @ [\<lparr>scope_weight = w, index_aggregation_scope = None, scope_epsilon = None,
                        scope_delta = None, scope_mechanisms = []\<rparr>]\<rparr>))"
proof -
  have flag: "inside_aggregation_scope a \<longleftrightarrow> aggregation_scope_open a" if "disciplined lib a"
    using disciplined_usage [OF that]
    by (simp add: usage_invariant_def aggregation_scope_open_iff)
  have nested: "scope b w True = (Inl NestedAggregationScopes, b)"
    if "truthy_int (n_aggregations b) \<or> truthy_list (aggregation_weights b)"
      and "inside_aggregation_scope b" for b
    using that(2,1) by (rule scope_nested)
  have entered: "scope (snd (BudgetAccountantScope_enter a1 sid)) w True
                   = (Inl NestedAggregationScopes, snd (BudgetAccountantScope_enter a1 sid))"
    if cfg: "truthy_int (n_aggregations a) \<or> truthy_list (aggregation_weights a)"
      and run: "scope a w1 True = (Inr sid, a1)" for sid a1
  proof -
    let ?a2 = "snd (BudgetAccountantScope_enter a1 sid)"
    have a2: "?a2 = enter_scope a1 sid"
      by (simp add: BudgetAccountantScope_enter_def)
    have "a1 = snd (scope a w1 True)" using run by simp
    then have cfg1: "n_aggregations a1 = n_aggregations a"
      "aggregation_weights a1 = aggregation_weights a"
      using scope_frame [of a w1 True] by simp_all
    have "is_aggregation_scope (scope_heap a1 ! sid)"
      using scope_result_aggregation [OF cfg run] by simp
    then have "inside_aggregation_scope ?a2"
      unfolding a2 by (rule enter_scope_flag)
    moreover have "truthy_int (n_aggregations ?a2) \<or> truthy_list (aggregation_weights ?a2)"
      unfolding a2 using cfg cfg1 enter_scope_frame [of a1 sid] by simp
    ultimately show ?thesis by (rule nested [rotated])
  qed
  show ?thesis
    using flag nested [of a] entered scope_unconstrained [of a w] by blast
qed

lemma two_aggregations_state_fresh: "fresh_accountant two_aggregations_state"
proof -
  have "NaiveBudgetAccountant_init 1 0 (Some 2) None = Inr two_aggregations_state"
    by (simp add: NaiveBudgetAccountant_init_def BudgetAccountant_init_def
        validate_epsilon_delta_def two_aggregations_state_def)
  then show ?thesis unfolding fresh_accountant_def by blast
qed

lemma entered_aggregation_state_eq:
  "entered_aggregation_state =
     \<lparr>accountant_class = NaiveBudgetAccountant, scopes_stack = [0],
      mechanisms = [], finalized = False,
      n_aggregations = Some 2, aggregation_weights = None, next_aggregation_index = 1,
      inside_aggregation_scope = True, total_epsilon = 1, total_delta = 0,
      minimum_noise_std = None, pld_discretization = 0,
      scope_heap = [\<lparr>scope_weight = 1, index_aggregation_scope = Some 0,
                     scope_epsilon = Some (1 / 2), scope_delta = Some 0, scope_mechanisms = []\<rparr>]\<rparr>"
  by (simp add: entered_aggregation_state_def two_aggregations_state_def build_defs)

lemma entered_aggregation_state_disciplined: "disciplined lib entered_aggregation_state"
proof -
  let ?a1 = "snd (scope two_aggregations_state 1 True)"
  have "disciplined lib ?a1"
    using two_aggregations_state_fresh
    by (intro disciplined_step [OF disciplined_init step_scope]) (simp_all add: enters_in_order_def)
  moreover have "0 < length (scope_heap ?a1)"
    by (simp add: two_aggregations_state_def build_defs)
  moreover have "enters_in_order ?a1 (Enter 0)"
    by (simp add: enters_in_order_def two_aggregations_state_def build_defs)
  ultimately have "disciplined lib (snd (BudgetAccountantScope_enter ?a1 0))"
    by (intro disciplined_step [OF _ step_enter])
  then show ?thesis by (simp add: entered_aggregation_state_def)
qed

text \<open>With \<open>n_aggregations = 2\<close>: the first aggregation scope is made and entered, the
  second call fails; with neither setting, the second call returns a scope.\<close>

theorem nested_aggregation_scope_fails_witness:
  "truthy_int (n_aggregations two_aggregations_state)
   \<and> fst (scope two_aggregations_state 1 True) = Inr 0
   \<and> fst (scope (snd (BudgetAccountantScope_enter (snd (scope two_aggregations_state 1 True)) 0))
            1 True) = Inl NestedAggregationScopes
   \<and> disciplined toy_pldlib entered_aggregation_state
   \<and> aggregation_scope_open entered_aggregation_state
   \<and> inside_aggregation_scope entered_aggregation_state
   \<and> fst (scope entered_aggregation_state 1 True) = Inl NestedAggregationScopes
   \<and> fst (scope unconstrained_aggregation_state 1 True) = Inr 1"
proof -
  have cfg: "truthy_int (n_aggregations two_aggregations_state)"
    by (simp add: two_aggregations_state_def new_accountant_def truthy_int_def)
  have ok: "fst (scope two_aggregations_state 1 True) = Inr 0"
    by (simp add: two_aggregations_state_def build_defs)
  then have run: "scope two_aggregations_state 1 True
                    = (Inr 0, snd (scope two_aggregations_state 1 True))"
    by (metis prod.collapse)
  have first: "fst (scope (snd (BudgetAccountantScope_enter
                                   (snd (scope two_aggregations_state 1 True)) 0))
                      1 True) = Inl NestedAggregationScopes"
    using nested_aggregation_scope_fails [of two_aggregations_state 1 1 toy_pldlib] cfg run
    by simp
  have dis: "disciplined toy_pldlib entered_aggregation_state"
    by (rule entered_aggregation_state_disciplined)
  have cfg2: "truthy_int (n_aggregations entered_aggregation_state)"
    and "open": "aggregation_scope_open entered_aggregation_state"
    by (simp_all add: entered_aggregation_state_eq truthy_int_def aggregation_scope_open_def
        is_aggregation_scope_def)
  note t = nested_aggregation_scope_fails [of entered_aggregation_state 1 1 toy_pldlib]
  have inside: "inside_aggregation_scope entered_aggregation_state"
    using t dis "open" by blast
  have second: "fst (scope entered_aggregation_state 1 True) = Inl NestedAggregationScopes"
    using t cfg2 dis "open" by simp
  have un: "\<not> truthy_int (n_aggregations unconstrained_aggregation_state)"
    "\<not> truthy_list (aggregation_weights unconstrained_aggregation_state)"
    "length (scope_heap unconstrained_aggregation_state) = 1"
    by (simp_all add: unconstrained_aggregation_state_def build_defs)
  have "scope unconstrained_aggregation_state 1 True
          = (Inr (length (scope_heap unconstrained_aggregation_state)),
             unconstrained_aggregation_state
               \<lparr>scope_heap := scope_heap unconstrained_aggregation_state
                    @ [\<lparr>scope_weight = 1, index_aggregation_scope = None, scope_epsilon = None,
                        scope_delta = None, scope_mechanisms = []\<rparr>]\<rparr>)"
    using nested_aggregation_scope_fails [of unconstrained_aggregation_state 1 1 toy_pldlib]
      un(1,2)
    by blast
  then have third: "fst (scope unconstrained_aggregation_state 1 True) = Inr 1"
    by (simp add: un(3))
  show ?thesis
    using cfg ok first dis "open" inside second third by simp
qed

end
